theory Spec2Isabelle
  imports Complex_Main
begin

section \<open>Python values\<close>

text \<open>
  A Python \<open>str\<close> is a sequence of Unicode code points. It is modelled as a list of
  natural numbers, one per code point, so that \<open>len\<close>, \<open>find\<close>, slicing and the
  character classes of \<open>re\<close> count what Python counts. \<open>ustr\<close> reads an ASCII literal.
\<close>

type_synonym pystr = "nat list"

definition ustr :: "string \<Rightarrow> pystr" where
  "ustr cs = map of_char cs"

text \<open>The exceptions that the program and the libraries it calls can raise.\<close>

datatype exn =
    ValueError pystr
  | JSONDecodeError
  | TypeError
  | IndexError
  | LibraryError nat

section \<open>The Quasi-JSON Recoverer: \<open>extract_json\<close>\<close>

subsection \<open>\<open>str.find\<close> and \<open>str.rfind\<close> for a one-character needle\<close>

fun py_find :: "nat \<Rightarrow> pystr \<Rightarrow> int" where
  "py_find c [] = - 1"
| "py_find c (x # xs) =
     (if x = c then 0
      else (let r = py_find c xs in if r = - 1 then - 1 else r + 1))"

fun py_rfind :: "nat \<Rightarrow> pystr \<Rightarrow> int" where
  "py_rfind c [] = - 1"
| "py_rfind c (x # xs) =
     (let r = py_rfind c xs
      in if r \<noteq> - 1 then r + 1 else if x = c then 0 else - 1)"

subsection \<open>Character classes of the two patterns\<close>

text \<open>
  \<open>\s\<close> in a \<open>str\<close> pattern is Unicode white space: the ASCII characters
  \<open>\t \n \v \f \r\<close>, the separators \<open>0x1c\<close> to \<open>0x1f\<close>, the space, and the
  code points beyond ASCII that \<open>str.isspace\<close> accepts.
\<close>

definition is_space :: "nat \<Rightarrow> bool" where
  "is_space c \<longleftrightarrow>
     (9 \<le> c \<and> c \<le> 13) \<or> (28 \<le> c \<and> c \<le> 32) \<or> c = 133 \<or> c = 160 \<or> c = 5760
     \<or> (8192 \<le> c \<and> c \<le> 8202) \<or> c = 8232 \<or> c = 8233 \<or> c = 8239 \<or> c = 8287
     \<or> c = 12288"

text \<open>The class \<open>[A-Za-z0-9_]\<close>.\<close>

definition is_word :: "nat \<Rightarrow> bool" where
  "is_word c \<longleftrightarrow>
     (65 \<le> c \<and> c \<le> 90) \<or> (97 \<le> c \<and> c \<le> 122) \<or> (48 \<le> c \<and> c \<le> 57) \<or> c = 95"

subsection \<open>First substitution: unquoted keys at line starts\<close>

text \<open>
  \<open>match_key s\<close> matches \<open>\s*([A-Za-z0-9_]+)\s*:\<close> at the head of \<open>s\<close> and returns
  group 1 and the text after the match. The three classes \<open>\s\<close>, \<open>[A-Za-z0-9_]\<close>
  and \<open>:\<close> are pairwise disjoint, so a repetition that gives a character back can
  never let the rest of the pattern match: the greedy run is the only candidate.
\<close>

definition match_key :: "pystr \<Rightarrow> (pystr \<times> pystr) option" where
  "match_key s =
     (let s1 = dropWhile is_space s;
          key = takeWhile is_word s1;
          s2 = dropWhile is_word s1;
          s3 = dropWhile is_space s2
      in (case s3 of
            [] \<Rightarrow> None
          | c # rest \<Rightarrow> if key \<noteq> [] \<and> c = 58 then Some (key, rest) else None))"

lemma match_key_shorter:
  assumes "match_key s = Some (key, rest)"
  shows "length rest < length s"
proof -
  let ?s1 = "dropWhile is_space s"
  let ?s2 = "dropWhile is_word ?s1"
  let ?s3 = "dropWhile is_space ?s2"
  from assms obtain c where s3: "?s3 = c # rest"
    by (auto simp: match_key_def Let_def split: list.splits if_splits)
  have "length ?s3 \<le> length ?s2" by (rule length_dropWhile_le)
  also have "\<dots> \<le> length ?s1" by (rule length_dropWhile_le)
  also have "\<dots> \<le> length s" by (rule length_dropWhile_le)
  finally show ?thesis using s3 by simp
qed

text \<open>
  \<open>re.sub(r'(?m)^\s*([A-Za-z0-9_]+)\s*:', r'"\1":', raw)\<close>: the scan goes from left
  to right; \<open>bol\<close> says whether the current position is a line start (the start of
  the text, or just after a line feed), where \<open>^\<close> matches under \<open>(?m)\<close>. A match is
  replaced by the quoted key and a colon, and the scan goes on after the match, which
  ends in a colon and so is not a line start.
\<close>

function sub_keys :: "bool \<Rightarrow> pystr \<Rightarrow> pystr" where
  "sub_keys bol [] = []"
| "sub_keys bol (c # cs) =
     (case (if bol then match_key (c # cs) else None) of
        Some (key, rest) \<Rightarrow> 34 # key @ 34 # 58 # sub_keys False rest
      | None \<Rightarrow> c # sub_keys (c = 10) cs)"
  by pat_completeness auto
termination
  by (relation "measure (\<lambda>(bol, s). length s)")
    (auto split: if_splits dest: match_key_shorter)

subsection \<open>Second substitution: trailing commas\<close>

text \<open>
  \<open>match_comma s\<close> matches \<open>,\s*([}\]])\<close> at the head of \<open>s\<close> and returns group 1
  and the text after the match.
\<close>

definition match_comma :: "pystr \<Rightarrow> (nat \<times> pystr) option" where
  "match_comma s =
     (case s of
        [] \<Rightarrow> None
      | c # cs \<Rightarrow>
          if c = 44 then
            (case dropWhile is_space cs of
               [] \<Rightarrow> None
             | d # rest \<Rightarrow> if d = 125 \<or> d = 93 then Some (d, rest) else None)
          else None)"

lemma match_comma_shorter:
  assumes "match_comma s = Some (d, rest)"
  shows "length rest < length s"
proof -
  from assms obtain cs where s: "s = 44 # cs" and r: "dropWhile is_space cs = d # rest"
    by (auto simp: match_comma_def split: list.splits if_splits)
  have "length (dropWhile is_space cs) \<le> length cs" by (rule length_dropWhile_le)
  then show ?thesis using s r by simp
qed

text \<open>\<open>re.sub(r',\s*([}\]])', r'\1', raw)\<close>.\<close>

function sub_commas :: "pystr \<Rightarrow> pystr" where
  "sub_commas [] = []"
| "sub_commas (c # cs) =
     (case match_comma (c # cs) of
        Some (d, rest) \<Rightarrow> d # sub_commas rest
      | None \<Rightarrow> c # sub_commas cs)"
  by pat_completeness auto
termination
  by (relation "measure length") (auto dest: match_comma_shorter)

subsection \<open>\<open>extract_json\<close>\<close>

text \<open>
  \<open>py_slice text start stop\<close> is \<open>text[start:stop]\<close> for bounds that are not negative,
  the only ones \<open>extract_json\<close> passes: it is empty when \<open>stop \<le> start\<close>.
\<close>

definition py_slice :: "pystr \<Rightarrow> int \<Rightarrow> int \<Rightarrow> pystr" where
  "py_slice text start stop = drop (nat start) (take (nat stop) text)"

definition extract_json :: "pystr \<Rightarrow> exn + pystr" where
  "extract_json text =
     (let start = py_find 123 text;
          end = py_rfind 125 text
      in if start = - 1 \<or> end = - 1 then Inl (ValueError (ustr ''No JSON object found''))
         else (let raw = py_slice text start (end + 1);
                   raw = sub_keys True raw;
                   raw = sub_commas raw
               in Inr raw))"

section \<open>Strict JSON parsing: \<open>json.loads\<close>\<close>

text \<open>
  The callers parse the Recoverer's output with \<open>json.loads\<close> of the standard library,
  with its default arguments. Its result is a Python value: \<open>None\<close>, a \<open>bool\<close>, an
  \<open>int\<close>, a \<open>float\<close>, a \<open>str\<close>, a \<open>list\<close> or a \<open>dict\<close>. A \<open>dict\<close> keeps its keys
  in insertion order and is an association list with distinct keys. A \<open>float\<close> is kept
  as the literal that \<open>float()\<close> is given: rounding to a double is not modelled, and
  two values with the same literal are the same \<open>float\<close>.
\<close>

datatype pyval =
    PNone
  | PBool bool
  | PInt int
  | PFloat pystr
  | PStr pystr
  | PList "pyval list"
  | PDict "(pystr \<times> pyval) list"

text \<open>\<open>d[k] = v\<close>: an existing key keeps its place, a new key goes last.\<close>

fun dict_set :: "'k \<Rightarrow> 'v \<Rightarrow> ('k \<times> 'v) list \<Rightarrow> ('k \<times> 'v) list" where
  "dict_set k v [] = [(k, v)]"
| "dict_set k v (p # ps) = (if fst p = k then (k, v) # ps else p # dict_set k v ps)"

subsection \<open>Tokens\<close>

text \<open>
  The decoder reads a text from left to right; what it reads at a position is decided
  by the character there. The model reads the whole text into tokens first and then
  runs the grammar over the tokens. The decoder accepts a text only when it has read
  all of it, so both read the same tokens from an accepted text, and a text that one
  of the two stages refuses is refused by the decoder.
\<close>

datatype token =
    LBrace
  | RBrace
  | LBracket
  | RBracket
  | Colon
  | Comma
  | StringTok pystr
  | ScalarTok pyval

text \<open>The white space that the decoder skips between tokens: \<open>[ \t\n\r]\<close>.\<close>

definition is_json_ws :: "nat \<Rightarrow> bool" where
  "is_json_ws c \<longleftrightarrow> c = 32 \<or> c = 9 \<or> c = 10 \<or> c = 13"

definition is_digit :: "nat \<Rightarrow> bool" where
  "is_digit c \<longleftrightarrow> 48 \<le> c \<and> c \<le> 57"

subsection \<open>String literals: \<open>scanstring\<close> with \<open>strict=True\<close>\<close>

text \<open>The table \<open>BACKSLASH\<close> of one-character escapes.\<close>

definition backslash :: "nat \<Rightarrow> nat option" where
  "backslash e =
     (if e = 34 then Some 34
      else if e = 92 then Some 92
      else if e = 47 then Some 47
      else if e = 98 then Some 8
      else if e = 102 then Some 12
      else if e = 110 then Some 10
      else if e = 114 then Some 13
      else if e = 116 then Some 9
      else None)"

definition hexval :: "nat \<Rightarrow> nat option" where
  "hexval c =
     (if 48 \<le> c \<and> c \<le> 57 then Some (c - 48)
      else if 65 \<le> c \<and> c \<le> 70 then Some (c - 55)
      else if 97 \<le> c \<and> c \<le> 102 then Some (c - 87)
      else None)"

text \<open>The four hexadecimal digits after \<open>\u\<close>.\<close>

definition decode_uXXXX :: "pystr \<Rightarrow> nat option" where
  "decode_uXXXX s =
     (case s of
        a # b # c # d # _ \<Rightarrow>
          (case (hexval a, hexval b, hexval c, hexval d) of
             (Some x, Some y, Some z, Some w) \<Rightarrow> Some (((x * 16 + y) * 16 + z) * 16 + w)
           | _ \<Rightarrow> None)
      | _ \<Rightarrow> None)"

definition cons_char :: "nat \<Rightarrow> (pystr \<times> pystr) option \<Rightarrow> (pystr \<times> pystr) option" where
  "cons_char ch r = map_option (\<lambda>(str, rest). (ch # str, rest)) r"

text \<open>
  \<open>scanstring s\<close> reads a string literal whose opening quote has been read, and returns
  the decoded string and the text after the closing quote. A literal control character
  is refused, and so is an escape outside the table. A high surrogate followed by an
  escaped low surrogate is one code point.
\<close>

fun scanstring :: "pystr \<Rightarrow> (pystr \<times> pystr) option" where
  "scanstring [] = None"
| "scanstring (c # cs) =
     (if c = 34 then Some ([], cs)
      else if c < 32 then None
      else if c \<noteq> 92 then cons_char c (scanstring cs)
      else (case cs of
              [] \<Rightarrow> None
            | e # r \<Rightarrow>
                if e \<noteq> 117 then
                  (case backslash e of
                     None \<Rightarrow> None
                   | Some ch \<Rightarrow> cons_char ch (scanstring r))
                else
                  (case decode_uXXXX r of
                     None \<Rightarrow> None
                   | Some uni \<Rightarrow>
                       if 55296 \<le> uni \<and> uni \<le> 56319 \<and> take 2 (drop 4 r) = [92, 117] then
                         (case decode_uXXXX (drop 6 r) of
                            None \<Rightarrow> None
                          | Some uni2 \<Rightarrow>
                              if 56320 \<le> uni2 \<and> uni2 \<le> 57343 then
                                cons_char (65536 + (uni - 55296) * 1024 + (uni2 - 56320))
                                  (scanstring (drop 10 r))
                              else cons_char uni (scanstring (drop 4 r)))
                       else cons_char uni (scanstring (drop 4 r)))))"

subsection \<open>Numbers\<close>

text \<open>
  \<open>(-?(?:0|[1-9]\d*))(\.\d+)?([eE][-+]?\d+)?\<close>, matched at the head of the text. Each
  part returns what it matched and the text after it. The fraction is matched only
  when a digit follows the point, and the exponent only when it has a digit.
\<close>

definition number_sign :: "pystr \<Rightarrow> pystr \<times> pystr" where
  "number_sign s = (case s of [] \<Rightarrow> ([], s) | c # cs \<Rightarrow> if c = 45 then ([c], cs) else ([], s))"

definition number_int :: "pystr \<Rightarrow> (pystr \<times> pystr) option" where
  "number_int s =
     (case s of
        [] \<Rightarrow> None
      | c # cs \<Rightarrow>
          if c = 48 then Some ([c], cs)
          else if is_digit c then Some (takeWhile is_digit s, dropWhile is_digit s)
          else None)"

definition number_frac :: "pystr \<Rightarrow> pystr \<times> pystr" where
  "number_frac s =
     (case s of
        p # q # r \<Rightarrow>
          if p = 46 \<and> is_digit q
          then (p # takeWhile is_digit (q # r), dropWhile is_digit (q # r))
          else ([], s)
      | _ \<Rightarrow> ([], s))"

definition number_exp :: "pystr \<Rightarrow> pystr \<times> pystr" where
  "number_exp s =
     (case s of
        [] \<Rightarrow> ([], s)
      | e # r \<Rightarrow>
          if e = 101 \<or> e = 69 then
            (let (sg, r1) = (case r of
                               [] \<Rightarrow> ([], r)
                             | x # r' \<Rightarrow> if x = 45 \<or> x = 43 then ([x], r') else ([], r))
             in if takeWhile is_digit r1 = [] then ([], s)
                else (e # sg @ takeWhile is_digit r1, dropWhile is_digit r1))
          else ([], s))"

text \<open>\<open>int()\<close> of a run of decimal digits.\<close>

definition digits_value :: "pystr \<Rightarrow> int" where
  "digits_value ds = foldl (\<lambda>a d. 10 * a + (int d - 48)) 0 ds"

definition match_number :: "pystr \<Rightarrow> (pyval \<times> pystr) option" where
  "match_number s =
     (let (sg, s0) = number_sign s
      in (case number_int s0 of
            None \<Rightarrow> None
          | Some (integer, s1) \<Rightarrow>
              (let (frac, s2) = number_frac s1;
                   (exp, s3) = number_exp s2
               in if frac = [] \<and> exp = []
                  then Some (PInt (if sg = [] then digits_value integer
                                   else - digits_value integer), s3)
                  else Some (PFloat (sg @ integer @ frac @ exp), s3))))"

subsection \<open>One token\<close>

text \<open>
  A value that is not a string, an object or an array, in the order of the scanner's
  tests: \<open>null\<close>, \<open>true\<close>, \<open>false\<close>, a number, and the constants \<open>NaN\<close>,
  \<open>Infinity\<close> and \<open>-Infinity\<close> that the decoder accepts beyond JSON.
\<close>

definition scan_scalar :: "pystr \<Rightarrow> (pyval \<times> pystr) option" where
  "scan_scalar s =
     (if take 4 s = ustr ''null'' then Some (PNone, drop 4 s)
      else if take 4 s = ustr ''true'' then Some (PBool True, drop 4 s)
      else if take 5 s = ustr ''false'' then Some (PBool False, drop 5 s)
      else (case match_number s of
              Some r \<Rightarrow> Some r
            | None \<Rightarrow>
                if take 3 s = ustr ''NaN'' then Some (PFloat (ustr ''NaN''), drop 3 s)
                else if take 8 s = ustr ''Infinity''
                then Some (PFloat (ustr ''Infinity''), drop 8 s)
                else if take 9 s = ustr ''-Infinity''
                then Some (PFloat (ustr ''-Infinity''), drop 9 s)
                else None))"

definition punctuation :: "nat \<Rightarrow> token option" where
  "punctuation c =
     (if c = 123 then Some LBrace
      else if c = 125 then Some RBrace
      else if c = 91 then Some LBracket
      else if c = 93 then Some RBracket
      else if c = 58 then Some Colon
      else if c = 44 then Some Comma
      else None)"

text \<open>\<open>next_token s\<close> reads the token at the head of \<open>s\<close>, which is not white space.\<close>

definition next_token :: "pystr \<Rightarrow> (token \<times> pystr) option" where
  "next_token s =
     (case s of
        [] \<Rightarrow> None
      | c # cs \<Rightarrow>
          if c = 34 then map_option (\<lambda>(str, rest). (StringTok str, rest)) (scanstring cs)
          else (case punctuation c of
                  Some p \<Rightarrow> Some (p, cs)
                | None \<Rightarrow> map_option (\<lambda>(v, rest). (ScalarTok v, rest)) (scan_scalar s)))"

subsection \<open>What a token reads\<close>

text \<open>
  \<open>consumed P s rest\<close>: reading from \<open>s\<close> left \<open>rest\<close>, and the characters read, at
  least one, all satisfy \<open>P\<close>.
\<close>


definition consumed :: "(nat \<Rightarrow> bool) \<Rightarrow> pystr \<Rightarrow> pystr \<Rightarrow> bool" where
  "consumed P s rest \<longleftrightarrow> (\<exists>tok. s = tok @ rest \<and> tok \<noteq> [] \<and> list_all P tok)"

lemma consumed_one: "P c \<Longrightarrow> consumed P (c # cs) cs"
  unfolding consumed_def by (rule exI [of _ "[c]"]) simp

lemma consumed_Cons: "P c \<Longrightarrow> consumed P cs rest \<Longrightarrow> consumed P (c # cs) rest"
  unfolding consumed_def
proof -
  assume c: "P c" and "\<exists>tok. cs = tok @ rest \<and> tok \<noteq> [] \<and> list_all P tok"
  then obtain tok where "cs = tok @ rest" "list_all P tok" by blast
  with c have "c # cs = (c # tok) @ rest \<and> c # tok \<noteq> [] \<and> list_all P (c # tok)" by simp
  then show "\<exists>tok. c # cs = tok @ rest \<and> tok \<noteq> [] \<and> list_all P tok" by blast
qed

lemma consumed_drop:
  assumes "consumed P (drop n s) rest" and "list_all P (take n s)"
  shows "consumed P s rest"
proof -
  from assms(1) obtain tok where t: "drop n s = tok @ rest" "tok \<noteq> []" "list_all P tok"
    unfolding consumed_def by blast
  have "s = (take n s @ tok) @ rest" using t(1) by (metis append_take_drop_id append_assoc)
  moreover have "take n s @ tok \<noteq> []" using t(2) by simp
  moreover have "list_all P (take n s @ tok)" using t(3) assms(2) by simp
  ultimately show ?thesis unfolding consumed_def by blast
qed

lemma consumed_take:
  assumes "take n s = lit" and "lit \<noteq> []" and "list_all P lit"
  shows "consumed P s (drop n s)"
proof -
  have "s = lit @ drop n s" using assms(1) by (metis append_take_drop_id)
  then show ?thesis unfolding consumed_def using assms(2,3) by blast
qed

lemma consumed_shorter: "consumed P s rest \<Longrightarrow> length rest < length s"
  unfolding consumed_def by (auto simp: neq_Nil_conv)

lemma consumed_mono: "consumed P s rest \<Longrightarrow> (\<And>c. P c \<Longrightarrow> Q c) \<Longrightarrow> consumed Q s rest"
  unfolding consumed_def by (auto simp: list_all_iff)

lemma hexval_ge: "hexval c = Some v \<Longrightarrow> 32 \<le> c"
  by (auto simp: hexval_def split: if_splits)

lemma decode_uXXXX_take:
  assumes "decode_uXXXX s = Some u"
  shows "list_all (\<lambda>c. 32 \<le> c) (take 4 s)"
  using assms
  by (auto simp: decode_uXXXX_def split: list.splits option.splits dest: hexval_ge)

lemma backslash_ge: "backslash e = Some ch \<Longrightarrow> 32 \<le> e"
  by (auto simp: backslash_def split: if_splits)

lemma cons_char_Some:
  "cons_char ch r = Some (str, rest) \<Longrightarrow> \<exists>str'. r = Some (str', rest)"
  by (auto simp: cons_char_def)

text \<open>
  \<open>closes s rest\<close>: reading a string literal from \<open>s\<close>, after its opening quote,
  left \<open>rest\<close>: the literal's text, which has no control character, and the closing
  quote were read.
\<close>

definition closes :: "pystr \<Rightarrow> pystr \<Rightarrow> bool" where
  "closes s rest \<longleftrightarrow> (\<exists>lit. s = lit @ 34 # rest \<and> list_all (\<lambda>c. 32 \<le> c) lit)"

lemma closes_quote: "closes (34 # cs) cs"
  unfolding closes_def by (rule exI [of _ "[]"]) simp

lemma closes_Cons:
  assumes "32 \<le> c" and "closes cs rest"
  shows "closes (c # cs) rest"
proof -
  from assms(2) obtain lit where "cs = lit @ 34 # rest" "list_all (\<lambda>c. 32 \<le> c) lit"
    unfolding closes_def by blast
  with assms(1) have "c # cs = (c # lit) @ 34 # rest \<and> list_all (\<lambda>c. 32 \<le> c) (c # lit)"
    by simp
  then show ?thesis unfolding closes_def by blast
qed

lemma closes_drop:
  assumes "closes (drop n s) rest" and "list_all (\<lambda>c. 32 \<le> c) (take n s)"
  shows "closes s rest"
proof -
  from assms(1) obtain lit where l: "drop n s = lit @ 34 # rest" "list_all (\<lambda>c. 32 \<le> c) lit"
    unfolding closes_def by blast
  have "s = (take n s @ lit) @ 34 # rest" using l(1) by (metis append_take_drop_id append_assoc)
  moreover have "list_all (\<lambda>c. 32 \<le> c) (take n s @ lit)" using l(2) assms(2) by simp
  ultimately show ?thesis unfolding closes_def by blast
qed

lemma closes_consumed:
  assumes "closes s rest"
  shows "consumed (\<lambda>c. 32 \<le> c) s rest"
proof -
  from assms obtain lit where "s = lit @ 34 # rest" "list_all (\<lambda>c. 32 \<le> c) lit"
    unfolding closes_def by blast
  then have "s = (lit @ [34]) @ rest \<and> lit @ [34] \<noteq> [] \<and> list_all (\<lambda>c. 32 \<le> c) (lit @ [34])"
    by simp
  then show ?thesis unfolding consumed_def by blast
qed

lemma scanstring_closes:
  "scanstring s = Some (str, rest) \<Longrightarrow> closes s rest"
proof (induction s arbitrary: str rest rule: scanstring.induct)
  case 1
  then show ?case by simp
next
  case (2 c cs)
  show ?case
  proof (cases "c = 34")
    case True
    with "2.prems" show ?thesis by (simp add: closes_quote)
  next
    case q: False
    show ?thesis
    proof (cases "c = 92")
      case False
      with q "2.prems" have c: "32 \<le> c" and "\<exists>str'. scanstring cs = Some (str', rest)"
        by (auto split: if_splits dest: cons_char_Some)
      with "2.IH"(1) q False have "closes cs rest" by auto
      with c show ?thesis by (simp add: closes_Cons)
    next
      case b: True
      with q "2.prems" obtain e r where cs: "cs = e # r"
        by (auto split: list.splits)
      show ?thesis
      proof (cases "e = 117")
        case False
        with q b cs "2.prems" obtain ch where ch: "backslash e = Some ch"
          and "\<exists>str'. scanstring r = Some (str', rest)"
          by (auto split: option.splits dest: cons_char_Some)
        with "2.IH"(2) [OF q _ _ cs False ch] b have "closes r rest" by auto
        with ch b cs show ?thesis by (simp add: closes_Cons backslash_ge)
      next
        case u: True
        with q b cs "2.prems" obtain uni where uni: "decode_uXXXX r = Some uni"
          by (auto split: option.splits)
        have t4: "list_all (\<lambda>c. 32 \<le> c) (take 4 r)" by (rule decode_uXXXX_take [OF uni])
        have "closes r rest"
        proof (cases "55296 \<le> uni \<and> uni \<le> 56319 \<and> take 2 (drop 4 r) = [92, 117]")
          case False
          with q b cs u uni "2.prems" have "\<exists>str'. scanstring (drop 4 r) = Some (str', rest)"
            by (auto dest: cons_char_Some)
          with "2.IH"(5) [OF q _ _ cs _ uni False] b u
          have "closes (drop 4 r) rest" by auto
          then show ?thesis using t4 by (rule closes_drop)
        next
          case sur: True
          with q b cs u uni "2.prems" obtain uni2 where uni2: "decode_uXXXX (drop 6 r) = Some uni2"
            by (auto split: option.splits)
          show ?thesis
          proof (cases "56320 \<le> uni2 \<and> uni2 \<le> 57343")
            case False
            with sur uni2 q b cs u uni "2.prems"
            have "\<exists>str'. scanstring (drop 4 r) = Some (str', rest)"
              by (auto dest: cons_char_Some)
            with "2.IH"(4) [OF q _ _ cs _ uni sur uni2 False] b u
            have "closes (drop 4 r) rest" by auto
            then show ?thesis using t4 by (rule closes_drop)
          next
            case low: True
            with sur uni2 q b cs u uni "2.prems"
            have "\<exists>str'. scanstring (drop 10 r) = Some (str', rest)"
              by (auto dest: cons_char_Some)
            with "2.IH"(3) [OF q _ _ cs _ uni sur uni2 low] b u
            have "closes (drop 10 r) rest" by auto
            then have "closes (drop 4 (drop 6 r)) rest" by simp
            then have "closes (drop 6 r) rest"
              using decode_uXXXX_take [OF uni2] by (rule closes_drop)
            then have "closes (drop 2 (drop 4 r)) rest" by simp
            moreover have "list_all (\<lambda>c. 32 \<le> c) (take 2 (drop 4 r))" using sur by simp
            ultimately have "closes (drop 4 r) rest"
              by (rule closes_drop)
            then show ?thesis using t4 by (rule closes_drop)
          qed
        qed
        with b cs u show ?thesis by (simp add: closes_Cons)
      qed
    qed
  qed
qed

lemma scanstring_consumed:
  "scanstring s = Some (str, rest) \<Longrightarrow> consumed (\<lambda>c. 32 \<le> c) s rest"
  by (rule closes_consumed) (rule scanstring_closes)


definition is_numchar :: "nat \<Rightarrow> bool" where
  "is_numchar c \<longleftrightarrow> is_word c \<or> c = 43 \<or> c = 45 \<or> c = 46"

lemma digit_numchar: "is_digit c \<Longrightarrow> is_numchar c"
  by (auto simp: is_digit_def is_numchar_def is_word_def)

lemma takeWhile_digit_numchar: "list_all is_numchar (takeWhile is_digit s)"
  by (auto simp: list_all_iff dest: set_takeWhileD digit_numchar)

lemma number_sign_split:
  "number_sign s = (sg, s0) \<Longrightarrow> s = sg @ s0 \<and> list_all is_numchar sg"
  by (auto simp: number_sign_def is_numchar_def split: list.splits if_splits)

lemma number_int_split:
  "number_int s = Some (i, s1) \<Longrightarrow> s = i @ s1 \<and> i \<noteq> [] \<and> list_all is_numchar i"
  by (auto simp: number_int_def takeWhile_digit_numchar is_digit_def
      is_numchar_def is_word_def split: list.splits if_splits)

lemma number_frac_split:
  "number_frac s = (f, s2) \<Longrightarrow> s = f @ s2 \<and> list_all is_numchar f"
  by (auto simp: number_frac_def takeWhile_digit_numchar is_digit_def
      is_numchar_def is_word_def split: list.splits if_splits)

lemma number_exp_split:
  "number_exp s = (e, s3) \<Longrightarrow> s = e @ s3 \<and> list_all is_numchar e"
  by (auto simp: number_exp_def Let_def takeWhile_digit_numchar is_digit_def
      is_numchar_def is_word_def split: list.splits if_splits prod.splits)

lemma match_number_consumed:
  assumes "match_number s = Some (v, rest)"
  shows "consumed is_numchar s rest"
proof -
  obtain sg s0 where sg: "number_sign s = (sg, s0)" by (cases "number_sign s")
  with assms obtain i s1 where i: "number_int s0 = Some (i, s1)"
    by (auto simp: match_number_def split: option.splits)
  obtain f s2 where f: "number_frac s1 = (f, s2)" by (cases "number_frac s1")
  obtain e s3 where e: "number_exp s2 = (e, s3)" by (cases "number_exp s2")
  from assms sg i f e have rest: "rest = s3"
    by (auto simp: match_number_def split: if_splits)
  from number_sign_split [OF sg] number_int_split [OF i] number_frac_split [OF f]
    number_exp_split [OF e] rest
  have "s = (sg @ i @ f @ e) @ rest" "sg @ i @ f @ e \<noteq> []" "list_all is_numchar (sg @ i @ f @ e)"
    by auto
  then show ?thesis unfolding consumed_def by blast
qed

lemma match_number_head:
  "match_number (c # cs) = Some (v, rest) \<Longrightarrow> c = 45 \<or> is_digit c"
  by (auto simp: match_number_def number_sign_def number_int_def is_digit_def
      split: option.splits if_splits prod.splits)

lemma ustr_simps:
  "ustr ''null'' = [110, 117, 108, 108]"
  "ustr ''true'' = [116, 114, 117, 101]"
  "ustr ''false'' = [102, 97, 108, 115, 101]"
  "ustr ''NaN'' = [78, 97, 78]"
  "ustr ''Infinity'' = [73, 110, 102, 105, 110, 105, 116, 121]"
  "ustr ''-Infinity'' = [45, 73, 110, 102, 105, 110, 105, 116, 121]"
  by (simp_all add: ustr_def)







lemma literal_consumed:
  assumes "take n s = l" and "rest = drop n s" and "l \<noteq> []" and "list_all is_numchar l"
  shows "consumed is_numchar s rest"
  using assms by (auto intro: consumed_take)

lemma scan_scalar_consumed:
  assumes "scan_scalar s = Some (v, rest)"
  shows "consumed is_numchar s rest"
proof -
  consider (null) "take 4 s = ustr ''null''" "rest = drop 4 s"
    | (true) "take 4 s = ustr ''true''" "rest = drop 4 s"
    | (false) "take 5 s = ustr ''false''" "rest = drop 5 s"
    | (num) "match_number s = Some (v, rest)"
    | (nan) "take 3 s = ustr ''NaN''" "rest = drop 3 s"
    | (inf) "take 8 s = ustr ''Infinity''" "rest = drop 8 s"
    | (ninf) "take 9 s = ustr ''-Infinity''" "rest = drop 9 s"
    using assms unfolding scan_scalar_def
    by (auto split: if_splits option.splits)
  then show ?thesis
  proof cases
    case null then show ?thesis
      by (rule literal_consumed) (simp_all add: ustr_simps is_numchar_def is_word_def)
  next
    case true then show ?thesis
      by (rule literal_consumed) (simp_all add: ustr_simps is_numchar_def is_word_def)
  next
    case false then show ?thesis
      by (rule literal_consumed) (simp_all add: ustr_simps is_numchar_def is_word_def)
  next
    case num then show ?thesis by (rule match_number_consumed)
  next
    case nan then show ?thesis
      by (rule literal_consumed) (simp_all add: ustr_simps is_numchar_def is_word_def)
  next
    case inf then show ?thesis
      by (rule literal_consumed) (simp_all add: ustr_simps is_numchar_def is_word_def)
  next
    case ninf then show ?thesis
      by (rule literal_consumed) (simp_all add: ustr_simps is_numchar_def is_word_def)
  qed
qed

lemma scan_scalar_head:
  assumes "scan_scalar (c # cs) = Some (v, rest)"
  shows "c = 45 \<or> is_digit c \<or> c = 110 \<or> c = 116 \<or> c = 102 \<or> c = 78 \<or> c = 73"
proof (cases "match_number (c # cs)")
  case (Some r)
  then show ?thesis using match_number_head [of c cs] by (cases r) auto
next
  case None
  with assms show ?thesis
    by (auto simp: scan_scalar_def ustr_simps split: if_splits)
qed

lemma numchar_ge: "is_numchar c \<Longrightarrow> 32 \<le> c"
  by (auto simp: is_numchar_def is_word_def)

lemma next_token_scalar:
  assumes "next_token s = Some (ScalarTok v, rest)"
  shows "consumed is_numchar s rest"
proof -
  from assms have "scan_scalar s = Some (v, rest)"
    by (auto simp: next_token_def punctuation_def split: list.splits if_splits option.splits)
  then show ?thesis by (rule scan_scalar_consumed)
qed

lemma next_token_consumed:
  assumes "next_token s = Some (t, rest)"
  shows "consumed (\<lambda>c. 32 \<le> c) s rest"
proof (cases t)
  case (ScalarTok v)
  with assms have "consumed is_numchar s rest" by (simp add: next_token_scalar)
  then show ?thesis by (rule consumed_mono) (rule numchar_ge)
next
  case (StringTok str)
  with assms obtain cs where s: "s = 34 # cs" and "scanstring cs = Some (str, rest)"
    by (cases s) (auto simp: next_token_def punctuation_def split: if_splits option.splits)
  then have "consumed (\<lambda>c. 32 \<le> c) cs rest" by (simp add: scanstring_consumed)
  with s show ?thesis by (simp add: consumed_Cons)
qed (use assms in \<open>auto simp: next_token_def punctuation_def consumed_one
      split: list.splits if_splits option.splits\<close>)

lemma next_token_word:
  "is_word c \<Longrightarrow> next_token (c # cs) = Some (t, rest) \<Longrightarrow> \<exists>v. t = ScalarTok v"
  by (auto simp: next_token_def punctuation_def is_word_def split: if_splits option.splits)

lemma next_token_space:
  assumes "is_space c" and "\<not> is_json_ws c"
  shows "next_token (c # cs) = None"
proof -
  have "scan_scalar (c # cs) = None"
    using assms scan_scalar_head [of c cs]
    by (cases "scan_scalar (c # cs)") (auto simp: is_space_def is_digit_def)
  then show ?thesis using assms
    by (auto simp: next_token_def punctuation_def is_space_def is_json_ws_def)
qed

subsection \<open>The tokens of a text\<close>

function tokens :: "pystr \<Rightarrow> token list option" where
  "tokens [] = Some []"
| "tokens (c # cs) =
     (if is_json_ws c then tokens cs
      else (case next_token (c # cs) of
              None \<Rightarrow> None
            | Some (t, rest) \<Rightarrow> map_option ((#) t) (tokens rest)))"
  by pat_completeness auto
termination
  by (relation "measure length") (auto dest!: next_token_consumed consumed_shorter)


subsection \<open>The grammar\<close>

text \<open>
  The decoder's \<open>JSONObject\<close> and \<open>JSONArray\<close> call the scanner recursively. The model
  keeps the open containers on a stack instead: an array with its elements so far
  (last first), an object with its pairs so far and the key that waits for its value.
  \<open>expect\<close> is what the decoder may read next.
\<close>

datatype frame =
    InArray "pyval list"
  | InObject "(pystr \<times> pyval) list" "pystr option"

datatype expect =
    Value
  | ValueOrClose
  | Key
  | KeyOrClose
  | KeyColon
  | CommaOrClose
  | Done pyval

text \<open>
  A value is complete: it is the result when no container is open, the next element of
  the open array, or the value of the waiting key of the open object. A key read twice
  keeps the last value, as \<open>dict(pairs)\<close> does.
\<close>

fun complete :: "pyval \<Rightarrow> frame list \<Rightarrow> (expect \<times> frame list) option" where
  "complete v [] = Some (Done v, [])"
| "complete v (InArray es # st) = Some (CommaOrClose, InArray (v # es) # st)"
| "complete v (InObject ps (Some k) # st) = Some (CommaOrClose, InObject (dict_set k v ps) None # st)"
| "complete v (InObject ps None # st) = None"

fun begin_value :: "token \<Rightarrow> frame list \<Rightarrow> (expect \<times> frame list) option" where
  "begin_value (StringTok s) st = complete (PStr s) st"
| "begin_value (ScalarTok v) st = complete v st"
| "begin_value LBrace st = Some (KeyOrClose, InObject [] None # st)"
| "begin_value LBracket st = Some (ValueOrClose, InArray [] # st)"
| "begin_value _ st = None"

fun step :: "expect \<times> frame list \<Rightarrow> token \<Rightarrow> (expect \<times> frame list) option" where
  "step (Value, st) t = begin_value t st"
| "step (ValueOrClose, InArray es # st) RBracket = complete (PList (rev es)) st"
| "step (ValueOrClose, st) t = begin_value t st"
| "step (KeyOrClose, InObject ps None # st) RBrace = complete (PDict ps) st"
| "step (KeyOrClose, InObject ps None # st) (StringTok k) = Some (KeyColon, InObject ps (Some k) # st)"
| "step (Key, InObject ps None # st) (StringTok k) = Some (KeyColon, InObject ps (Some k) # st)"
| "step (KeyColon, st) Colon = Some (Value, st)"
| "step (CommaOrClose, InArray es # st) Comma = Some (Value, InArray es # st)"
| "step (CommaOrClose, InArray es # st) RBracket = complete (PList (rev es)) st"
| "step (CommaOrClose, InObject ps None # st) Comma = Some (Key, InObject ps None # st)"
| "step (CommaOrClose, InObject ps None # st) RBrace = complete (PDict ps) st"
| "step _ _ = None"

fun run :: "expect \<times> frame list \<Rightarrow> token list \<Rightarrow> (expect \<times> frame list) option" where
  "run s [] = Some s"
| "run s (t # ts) = (case step s t of None \<Rightarrow> None | Some s' \<Rightarrow> run s' ts)"

text \<open>
  \<open>json.loads\<close>: the text is one value between optional white space; anything else
  raises \<open>JSONDecodeError\<close>. The interpreter's limits (the recursion depth, the number of
  digits that \<open>int()\<close> converts) are not modelled.
\<close>

definition json_loads :: "pystr \<Rightarrow> exn + pyval" where
  "json_loads s =
     (case tokens s of
        None \<Rightarrow> Inl JSONDecodeError
      | Some ts \<Rightarrow>
          (case run (Value, []) ts of
             Some (Done v, _) \<Rightarrow> Inr v
           | _ \<Rightarrow> Inl JSONDecodeError))"

subsection \<open>The embedded object and the trailing-comma pattern\<close>

text \<open>
  The text from the first \<open>{\<close> to the last \<open>}\<close>, which \<open>extract_json\<close> slices out before
  it repairs it.
\<close>

definition embedded_object :: "pystr \<Rightarrow> pystr" where
  "embedded_object text = py_slice text (py_find 123 text) (py_rfind 125 text + 1)"

text \<open>
  \<open>has_trailing_comma s\<close>: somewhere in \<open>s\<close> a comma is followed, after optional white
  space, by \<open>}\<close> or \<open>]\<close>: the second pattern matches at some position.
\<close>

fun has_trailing_comma :: "pystr \<Rightarrow> bool" where
  "has_trailing_comma [] = False"
| "has_trailing_comma (c # cs) = (match_comma (c # cs) \<noteq> None \<or> has_trailing_comma cs)"

text \<open>Facts for evaluating the Recoverer and the parser on a given text.\<close>

lemmas recoverer_eval = extract_json_def embedded_object_def py_slice_def match_key_def
  match_comma_def is_space_def is_word_def ustr_def

lemmas json_eval = json_loads_def next_token_def punctuation_def scan_scalar_def
  match_number_def number_sign_def number_int_def number_frac_def number_exp_def
  digits_value_def is_digit_def is_json_ws_def cons_char_def backslash_def hexval_def
  decode_uXXXX_def ustr_def

section \<open>The form document and the libraries around the program\<close>

subsection \<open>Exceptions as values\<close>

text \<open>A statement that raises ends the block it stands in: \<open>bind\<close> sequences two steps.\<close>

definition bind :: "exn + 'a \<Rightarrow> ('a \<Rightarrow> exn + 'b) \<Rightarrow> exn + 'b" where
  "bind m f = (case m of Inl e \<Rightarrow> Inl e | Inr v \<Rightarrow> f v)"

subsection \<open>Documents\<close>

text \<open>
  The program reads and writes PDF documents through PyMuPDF (\<open>fitz\<close>). A document that
  the library has opened is a list of pages; a page has its form widgets, its rectangle
  and what is drawn on it. \<open>PDF_WIDGET_TYPE_CHECKBOX\<close> and its siblings are the library's
  widget types.
\<close>

datatype widget_type =
    PDF_WIDGET_TYPE_UNKNOWN
  | PDF_WIDGET_TYPE_BUTTON
  | PDF_WIDGET_TYPE_CHECKBOX
  | PDF_WIDGET_TYPE_COMBOBOX
  | PDF_WIDGET_TYPE_LISTBOX
  | PDF_WIDGET_TYPE_RADIOBUTTON
  | PDF_WIDGET_TYPE_SIGNATURE
  | PDF_WIDGET_TYPE_TEXT

type_synonym rect = "real \<times> real \<times> real \<times> real"

record widget =
  field_name :: pystr
  field_type :: widget_type
  field_value :: pyval
  rect :: rect

text \<open>
  What a page shows: the drawing it came with (an opaque number), nothing, or one image
  placed in a rectangle. A pixmap is the rendering of a page's drawing and widgets.
\<close>

datatype content =
    Drawn nat
  | Blank
  | Image rect pixmap
and pixmap =
    Pixmap content "widget list"

record page =
  widgets :: "widget list"
  page_rect :: rect
  content :: content

type_synonym document = "page list"

text \<open>\<open>types.Part.from_bytes(data=..., mime_type=...)\<close>; the bytes are a saved document.\<close>

record part =
  data :: document
  mime_type :: pystr

subsection \<open>Library calls that may raise\<close>

text \<open>
  Any call into PyMuPDF may raise, for reasons the document model does not show (a
  broken cross-reference table, for one). Which calls raise is an input of the model:
  \<open>flt c = Some e\<close> says that the call \<open>c\<close> raises \<open>e\<close>. A call that does not raise
  returns what the library documents.
\<close>

datatype pdf_call =
    OpenStream
  | NewDocument
  | InsertPdf
  | LoadPage
  | Widgets
  | DeleteWidget nat
  | Save
  | FromBytes
  | GetPixmap
  | NewPage
  | InsertImage

datatype path = CopyPath | ImagePath

definition lib :: "exn option \<Rightarrow> exn + 'a \<Rightarrow> exn + 'a" where
  "lib flt r = (case flt of None \<Rightarrow> r | Some e \<Rightarrow> Inl e)"

text \<open>
  Modelled from the spec: \<open>doc[i]\<close> of PyMuPDF, which is not part of the repository. For
  an index of the document it is that page. The program only passes such indices; for
  any other index the model raises \<open>IndexError\<close>.
\<close>

definition load_page :: "document \<Rightarrow> int \<Rightarrow> exn + page" where
  "load_page doc i = (if 0 \<le> i \<and> i < int (length doc) then Inr (doc ! nat i) else Inl IndexError)"

text \<open>
  Modelled from the spec: \<open>dst.insert_pdf(src, from_page=i, to_page=i)\<close> of PyMuPDF, which
  copies the page \<open>i\<close> of \<open>src\<close> to the end of \<open>dst\<close>, widgets included. Outside the
  source's pages the model raises \<open>IndexError\<close>.
\<close>

definition insert_pdf :: "document \<Rightarrow> document \<Rightarrow> int \<Rightarrow> exn + document" where
  "insert_pdf dst src i = bind (load_page src i) (\<lambda>p. Inr (dst @ [p]))"

text \<open>Modelled from the spec: \<open>page.delete_widget(w)\<close> removes the widget from the page.\<close>

definition delete_widget :: "page \<Rightarrow> widget \<Rightarrow> page" where
  "delete_widget p w = p\<lparr>widgets := remove1 w (widgets p)\<rparr>"

text \<open>Modelled from the spec: \<open>page.get_pixmap()\<close> renders the page.\<close>

definition get_pixmap :: "page \<Rightarrow> pixmap" where
  "get_pixmap p = Pixmap (content p) (widgets p)"

text \<open>\<open>rect.width\<close> and \<open>rect.height\<close> of a page rectangle.\<close>

definition width :: "rect \<Rightarrow> real" where
  "width r = (case r of (x0, y0, x1, y1) \<Rightarrow> x1 - x0)"

definition height :: "rect \<Rightarrow> real" where
  "height r = (case r of (x0, y0, x1, y1) \<Rightarrow> y1 - y0)"

text \<open>
  Modelled from the spec: \<open>doc.new_page(width=w, height=h)\<close> appends an empty page of that
  size, and \<open>page.insert_image(rect, pixmap=pix)\<close> places the image on it.
\<close>

definition new_page :: "real \<Rightarrow> real \<Rightarrow> page" where
  "new_page w h = \<lparr>widgets = [], page_rect = (0, 0, w, h), content = Blank\<rparr>"

definition insert_image :: "page \<Rightarrow> rect \<Rightarrow> pixmap \<Rightarrow> page" where
  "insert_image p r pix = p\<lparr>content := Image r pix\<rparr>"

section \<open>The Page Isolator: \<open>make_page_part\<close>\<close>

text \<open>
  The loop \<open>for w in dst[0].widgets() or []: dst[0].delete_widget(w)\<close>; \<open>k\<close> counts the
  calls, so that any one of them can be the one that raises.
\<close>

fun delete_widgets :: "(pdf_call \<Rightarrow> exn option) \<Rightarrow> nat \<Rightarrow> widget list \<Rightarrow> page \<Rightarrow> exn + page" where
  "delete_widgets flt k [] p = Inr p"
| "delete_widgets flt k (w # ws) p =
     bind (lib (flt (DeleteWidget k)) (Inr (delete_widget p w))) (delete_widgets flt (Suc k) ws)"

text \<open>The body of the \<open>try\<close>: copy the page, remove its widgets, save.\<close>

definition copy_page :: "(pdf_call \<Rightarrow> exn option) \<Rightarrow> document \<Rightarrow> int \<Rightarrow> exn + part" where
  "copy_page flt src page_no =
     bind (lib (flt NewDocument) (Inr [])) (\<lambda>dst.
     bind (lib (flt InsertPdf) (insert_pdf dst src (page_no - 1))) (\<lambda>dst.
     bind (lib (flt LoadPage) (load_page dst 0)) (\<lambda>p0.
     bind (lib (flt Widgets) (Inr (widgets p0))) (\<lambda>ws.
     bind (delete_widgets flt 0 ws p0) (\<lambda>p0.
     bind (lib (flt Save) (Inr (dst[0 := p0]))) (\<lambda>buf.
     lib (flt FromBytes) (Inr \<lparr>data = buf, mime_type = ustr ''application/pdf''\<rparr>)))))))"

text \<open>The body of the \<open>except\<close>: render the page and put the image on a new page.\<close>

definition image_page :: "(pdf_call \<Rightarrow> exn option) \<Rightarrow> document \<Rightarrow> int \<Rightarrow> exn + part" where
  "image_page flt src page_no =
     bind (lib (flt LoadPage) (load_page src (page_no - 1))) (\<lambda>page.
     bind (lib (flt GetPixmap) (Inr (get_pixmap page))) (\<lambda>pix.
     bind (lib (flt NewDocument) (Inr [])) (\<lambda>new_pdf.
     let rect = page_rect page in
     bind (lib (flt NewPage) (Inr (new_page (width rect) (height rect)))) (\<lambda>new_page.
     bind (lib (flt InsertImage) (Inr (insert_image new_page rect pix))) (\<lambda>new_page.
     bind (lib (flt Save) (Inr (new_pdf @ [new_page]))) (\<lambda>buf.
     lib (flt FromBytes) (Inr \<lparr>data = buf, mime_type = ustr ''application/pdf''\<rparr>)))))))"

text \<open>
  \<open>make_page_part\<close>: the document is opened before the \<open>try\<close>; \<open>except Exception\<close>
  catches whatever the copy raises and runs the fallback, whose own exceptions leave
  the function.
\<close>

definition make_page_part :: "(path \<Rightarrow> pdf_call \<Rightarrow> exn option) \<Rightarrow> document \<Rightarrow> int \<Rightarrow> exn + part" where
  "make_page_part flt pdf_bytes page_no =
     bind (lib (flt CopyPath OpenStream) (Inr pdf_bytes)) (\<lambda>src.
       (case copy_page (flt CopyPath) src page_no of
          Inr part \<Rightarrow> Inr part
        | Inl e \<Rightarrow> image_page (flt ImagePath) src page_no))"

section \<open>The Field Inventory Extractor: \<open>extract_fields_with_positions\<close>\<close>

text \<open>The dictionary that the extractor appends for a widget.\<close>

record field =
  fd_name :: pystr
  fd_type :: pystr
  fd_value :: pyval
  fd_page :: int
  fd_rect :: "real list"

text \<open>\<open>enumerate(xs, start=n)\<close>.\<close>

fun enumerate_from :: "int \<Rightarrow> 'a list \<Rightarrow> (int \<times> 'a) list" where
  "enumerate_from n [] = []"
| "enumerate_from n (x # xs) = (n, x) # enumerate_from (n + 1) xs"

definition rect_floats :: "rect \<Rightarrow> real list" where
  "rect_floats r = (case r of (x0, y0, x1, y1) \<Rightarrow> [x0, y0, x1, y1])"

definition field_of :: "int \<Rightarrow> widget \<Rightarrow> field" where
  "field_of page_num w =
     \<lparr>fd_name = field_name w,
      fd_type = (if field_type w = PDF_WIDGET_TYPE_CHECKBOX then ustr ''checkbox'' else ustr ''text''),
      fd_value = field_value w,
      fd_page = page_num,
      fd_rect = rect_floats (rect w)\<rparr>"

definition extract_fields_with_positions :: "document \<Rightarrow> field list" where
  "extract_fields_with_positions doc =
     concat (map (\<lambda>(page_num, page). map (field_of page_num) (widgets page))
                 (enumerate_from 1 doc))"


section \<open>The run: the handler of the button\<close>

subsection \<open>The world outside the program\<close>

text \<open>
  What the oracle is asked: the prompts are fixed text around the data listed here, and
  the response may depend on nothing else. The mapping prompt carries the patient info
  and the page's context, but not the page's fields.
\<close>

record page_field =
  pf_id :: pystr
  pf_type :: pystr
  pf_rect :: "real list"

datatype request =
    PatientInfoRequest document document
  | ContextRequest int part "page_field list"
  | MappingRequest int part pyval pyval

text \<open>
  \<open>generate_content\<close> is \<open>client.models.generate_content(...).text\<close>: a text, or an exception of
  the client. \<open>fault\<close> says which PyMuPDF calls raise while a given page is isolated.
  \<open>float_truth\<close> and \<open>repr\<close> are Python's \<open>bool()\<close> of a \<open>float\<close>, given by its
  literal, and \<open>repr()\<close> of a \<open>float\<close>, a \<open>list\<close> or a \<open>dict\<close>: floating point and
  the layout of \<open>repr\<close> are not modelled.
  \<open>update\<close> is \<open>Widget.update()\<close> of PyMuPDF, which commits a widget object to the
  document: from the widget as the document holds it and the widget object with the
  value just assigned, it gives the widget as the document holds it afterwards. The
  library is not part of the repository; what it writes for an assignment is an input
  of the model.
\<close>

record env =
  generate_content :: "request \<Rightarrow> exn + pystr"
  fault :: "int \<Rightarrow> path \<Rightarrow> pdf_call \<Rightarrow> exn option"
  float_truth :: "pystr \<Rightarrow> bool"
  repr :: "pyval \<Rightarrow> pystr"
  update :: "widget \<Rightarrow> widget \<Rightarrow> widget"

subsection \<open>\<open>bool()\<close> and \<open>str()\<close> of a parsed value\<close>

function decimal :: "nat \<Rightarrow> pystr" where
  "decimal n = (if n < 10 then [48 + n] else decimal (n div 10) @ [48 + n mod 10])"
  by pat_completeness auto
termination
  by (relation "measure id") auto

definition str_int :: "int \<Rightarrow> pystr" where
  "str_int i = (if i < 0 then 45 # decimal (nat (- i)) else decimal (nat i))"

definition py_str :: "env \<Rightarrow> pyval \<Rightarrow> pystr" where
  "py_str env v =
     (case v of
        PStr s \<Rightarrow> s
      | PNone \<Rightarrow> ustr ''None''
      | PBool b \<Rightarrow> (if b then ustr ''True'' else ustr ''False'')
      | PInt i \<Rightarrow> str_int i
      | _ \<Rightarrow> repr env v)"

definition py_bool :: "env \<Rightarrow> pyval \<Rightarrow> bool" where
  "py_bool env v =
     (case v of
        PNone \<Rightarrow> False
      | PBool b \<Rightarrow> b
      | PInt i \<Rightarrow> i \<noteq> 0
      | PFloat l \<Rightarrow> float_truth env l
      | PStr s \<Rightarrow> s \<noteq> []
      | PList xs \<Rightarrow> xs \<noteq> []
      | PDict kvs \<Rightarrow> kvs \<noteq> [])"

subsection \<open>Step 1: the patient info\<close>

definition extract_patient_info :: "env \<Rightarrow> document \<Rightarrow> document \<Rightarrow> exn + pyval" where
  "extract_patient_info env referral_bytes pa_bytes =
     bind (generate_content env (PatientInfoRequest referral_bytes pa_bytes)) (\<lambda>response.
     bind (extract_json response) (\<lambda>raw.
     json_loads raw))"

subsection \<open>Step 2: the fields of each page\<close>

text \<open>\<open>d.setdefault(k, []).append(x)\<close> on a dictionary in insertion order.\<close>

definition setdefault_append :: "'k \<Rightarrow> 'v \<Rightarrow> ('k \<times> 'v list) list \<Rightarrow> ('k \<times> 'v list) list" where
  "setdefault_append k x d =
     (case map_of d k of
        None \<Rightarrow> d @ [(k, [x])]
      | Some l \<Rightarrow> dict_set k (l @ [x]) d)"

definition fields_by_page :: "field list \<Rightarrow> (int \<times> page_field list) list" where
  "fields_by_page fs =
     foldl (\<lambda>d f. setdefault_append (fd_page f)
                     \<lparr>pf_id = fd_name f, pf_type = fd_type f, pf_rect = fd_rect f\<rparr> d)
           [] fs"

subsection \<open>Step 3: the page loop\<close>

text \<open>
  \<open>field_mapping.update(mapping)\<close>. The Recoverer's output starts with \<open>{\<close>, so a
  parsed mapping is a \<open>dict\<close>; for any other value the model raises \<open>TypeError\<close>.
\<close>

definition dict_update :: "(pystr \<times> pyval) list \<Rightarrow> pyval \<Rightarrow> exn + (pystr \<times> pyval) list" where
  "dict_update d mapping =
     (case mapping of
        PDict kvs \<Rightarrow> Inr (foldl (\<lambda>d (k, v). dict_set k v d) d kvs)
      | _ \<Rightarrow> Inl TypeError)"

text \<open>
  One turn of the loop, on the state \<open>(field_context_by_page, field_mapping)\<close>. No
  statement of the loop stands in a \<open>try\<close>: an exception of any step ends the turn, the
  loop and the handler.
\<close>

definition process_page ::
  "env \<Rightarrow> document \<Rightarrow> pyval \<Rightarrow> int \<times> page_field list
     \<Rightarrow> (int \<times> pyval) list \<times> (pystr \<times> pyval) list
     \<Rightarrow> exn + (int \<times> pyval) list \<times> (pystr \<times> pyval) list" where
  "process_page env pa_bytes patient_info item state =
     (case (item, state) of ((page_no, page_fields), (field_context_by_page, field_mapping)) \<Rightarrow>
        bind (make_page_part (fault env page_no) pa_bytes page_no) (\<lambda>page_part.
        bind (generate_content env (ContextRequest page_no page_part page_fields)) (\<lambda>resp_ctx.
        bind (extract_json resp_ctx) (\<lambda>raw_ctx.
        bind (json_loads raw_ctx) (\<lambda>ctx.
        let field_context_by_page = dict_set page_no ctx field_context_by_page in
        bind (generate_content env (MappingRequest page_no page_part patient_info ctx)) (\<lambda>resp_map.
        bind (extract_json resp_map) (\<lambda>raw_map.
        bind (json_loads raw_map) (\<lambda>mapping.
        bind (dict_update field_mapping mapping) (\<lambda>field_mapping.
        Inr (field_context_by_page, field_mapping))))))))))"

fun page_loop ::
  "env \<Rightarrow> document \<Rightarrow> pyval \<Rightarrow> (int \<times> page_field list) list
     \<Rightarrow> (int \<times> pyval) list \<times> (pystr \<times> pyval) list
     \<Rightarrow> exn + (int \<times> pyval) list \<times> (pystr \<times> pyval) list" where
  "page_loop env pa_bytes patient_info [] state = Inr state"
| "page_loop env pa_bytes patient_info (item # items) state =
     bind (process_page env pa_bytes patient_info item state)
          (page_loop env pa_bytes patient_info items)"

subsection \<open>Step 4: the Form Filler\<close>

text \<open>
  The body of the inner loop, for one widget: nothing for a widget whose name is not a
  key of the map; for the others the assignment \<open>w.field_value = ...\<close> and then
  \<open>w.update()\<close>.
\<close>

definition fill_widget :: "env \<Rightarrow> (pystr \<times> pyval) list \<Rightarrow> widget \<Rightarrow> widget" where
  "fill_widget env field_mapping w =
     (let fid = field_name w
      in (case map_of field_mapping fid of
            None \<Rightarrow> w
          | Some val \<Rightarrow>
              if field_type w = PDF_WIDGET_TYPE_CHECKBOX
              then update env w
                     (w\<lparr>field_value := PStr (if py_bool env val then ustr ''Yes'' else ustr ''Off'')\<rparr>)
              else update env w (w\<lparr>field_value := PStr (py_str env val)\<rparr>)))"

definition fill :: "env \<Rightarrow> (pystr \<times> pyval) list \<Rightarrow> document \<Rightarrow> document" where
  "fill env field_mapping doc =
     map (\<lambda>page. page\<lparr>widgets := map (fill_widget env field_mapping) (widgets page)\<rparr>) doc"

subsection \<open>The handler\<close>

text \<open>
  How a run ends: \<open>st.stop()\<close> after an error message, an exception that nothing
  catches, or the download of the filled form.
\<close>

datatype message = MissingUpload | ExtractionFailed exn

datatype outcome =
    Stopped message
  | Raised exn
  | Download document

definition process_and_fill :: "env \<Rightarrow> document option \<Rightarrow> document option \<Rightarrow> outcome" where
  "process_and_fill env pa_file ref_file =
     (case (pa_file, ref_file) of
        (Some pa_bytes, Some ref_bytes) \<Rightarrow>
          (case extract_patient_info env ref_bytes pa_bytes of
             Inl e \<Rightarrow> Stopped (ExtractionFailed e)
           | Inr patient_info \<Rightarrow>
               (let fs = extract_fields_with_positions pa_bytes;
                    pages = sort_key fst (fields_by_page fs)
                in (case page_loop env pa_bytes patient_info pages ([], []) of
                      Inl e \<Rightarrow> Raised e
                    | Inr (field_context_by_page, field_mapping) \<Rightarrow>
                        Download (fill env field_mapping pa_bytes))))
      | _ \<Rightarrow> Stopped MissingUpload)"


subsection \<open>Where a page can fail to parse\<close>

text \<open>
  \<open>json.loads(extract_json(resp))\<close>, and the exception, if any, with which it fails on
  the context response or on the mapping response of one page.
\<close>

definition recover_and_parse :: "pystr \<Rightarrow> exn + pyval" where
  "recover_and_parse resp = bind (extract_json resp) json_loads"

definition page_parse_failure ::
  "env \<Rightarrow> pyval \<Rightarrow> int \<Rightarrow> part \<Rightarrow> page_field list \<Rightarrow> exn option" where
  "page_parse_failure env patient_info page_no page_part page_fields =
     (case generate_content env (ContextRequest page_no page_part page_fields) of
        Inl _ \<Rightarrow> None
      | Inr resp_ctx \<Rightarrow>
          (case recover_and_parse resp_ctx of
             Inl e \<Rightarrow> Some e
           | Inr ctx \<Rightarrow>
               (case generate_content env (MappingRequest page_no page_part patient_info ctx) of
                  Inl _ \<Rightarrow> None
                | Inr resp_map \<Rightarrow>
                    (case recover_and_parse resp_map of
                       Inl e \<Rightarrow> Some e
                     | Inr _ \<Rightarrow> None))))"

section \<open>Example documents\<close>

text \<open>
  The form of the end-to-end scenario: the text field \<open>T1\<close> on page 1 and the checkbox
  \<open>CB1\<close> on page 2.
\<close>

definition T1 :: widget where
  "T1 = \<lparr>field_name = ustr ''T1'', field_type = PDF_WIDGET_TYPE_TEXT, field_value = PStr [],
         rect = (72, 100, 300, 120)\<rparr>"

definition CB1 :: widget where
  "CB1 = \<lparr>field_name = ustr ''CB1'', field_type = PDF_WIDGET_TYPE_CHECKBOX,
          field_value = PStr (ustr ''Off''), rect = (72, 200, 84, 212)\<rparr>"

definition form :: document where
  "form = [\<lparr>widgets = [T1], page_rect = (0, 0, 612, 792), content = Drawn 1\<rparr>,
           \<lparr>widgets = [CB1], page_rect = (0, 0, 612, 792), content = Drawn 2\<rparr>]"

text \<open>A form whose two pages each carry a widget of the field \<open>T1\<close>.\<close>

definition twin_form :: document where
  "twin_form = [\<lparr>widgets = [T1], page_rect = (0, 0, 612, 792), content = Drawn 1\<rparr>,
                \<lparr>widgets = [T1], page_rect = (0, 0, 612, 792), content = Drawn 2\<rparr>]"

text \<open>The removal of the first widget of page 2 raises; every other call succeeds.\<close>

definition broken_xref :: "path \<Rightarrow> pdf_call \<Rightarrow> exn option" where
  "broken_xref p c = (if p = CopyPath \<and> c = DeleteWidget 0 then Some (LibraryError 1) else None)"

text \<open>
  An \<open>update()\<close> for the examples. On a text field PyMuPDF writes the value assigned to
  the widget when it is not empty, and writes nothing when it is empty: the field keeps
  what it held. What PyMuPDF writes for a button (its own on-state, for one) is not
  modelled: for the other widget types this instance hands back the widget object, and
  no example reads the saved value of such a widget.
\<close>

definition text_update :: "widget \<Rightarrow> widget \<Rightarrow> widget" where
  "text_update stored w =
     (if field_type stored = PDF_WIDGET_TYPE_TEXT \<and> field_value w = PStr [] then stored else w)"

text \<open>A run whose oracle is never asked: only the builtins matter to the Form Filler.\<close>

definition plain_env :: env where
  "plain_env = \<lparr>generate_content = (\<lambda>r. Inl (LibraryError 0)), fault = (\<lambda>n p c. None),
                float_truth = (\<lambda>l. True), repr = (\<lambda>v. []), update = text_update\<rparr>"



text \<open>
  An oracle for the form of the scenario. It answers the patient-info prompt, the
  context prompt of page 2 and the mapping prompt of page 1 with JSON; its answers to
  the context prompt of page 1 and to the mapping prompt of page 2 are parameters.
\<close>

definition answers :: "pystr \<Rightarrow> pystr \<Rightarrow> request \<Rightarrow> exn + pystr" where
  "answers c1 m2 r =
     (case r of
        PatientInfoRequest referral pa \<Rightarrow>
          Inr (ustr ''{\"patient_info\": {\"First_Name\": \"Jane\", \"Smoker\": true}}'')
      | ContextRequest page_no page_part page_fields \<Rightarrow>
          if page_no = 1 then Inr c1
          else Inr (ustr ''{\"CB1\": {\"question\": \"Is patient a smoker?\"}}'')
      | MappingRequest page_no page_part patient_info ctx \<Rightarrow>
          if page_no = 1 then Inr (ustr ''Here you go: {\"T1\": \"Jane\"}'')
          else Inr m2)"

definition world :: "pystr \<Rightarrow> pystr \<Rightarrow> env" where
  "world c1 m2 = \<lparr>generate_content = answers c1 m2, fault = (\<lambda>n p c. None),
                      float_truth = (\<lambda>l. True), repr = (\<lambda>v. []), update = text_update\<rparr>"

definition referral :: document where
  "referral = [\<lparr>widgets = [], page_rect = (0, 0, 612, 792), content = Drawn 7\<rparr>]"

lemmas pdf_eval = bind_def lib_def load_page_def insert_pdf_def delete_widget_def
  get_pixmap_def width_def height_def new_page_def insert_image_def copy_page_def
  image_page_def make_page_part_def

section \<open>Properties of the Recoverer\<close>

lemma py_find_ge: "- 1 \<le> py_find c s"
  by (induction s) (auto simp: Let_def)

lemma py_find_none: "py_find c s = - 1 \<longleftrightarrow> c \<notin> set s"
proof (induction s)
  case Nil
  then show ?case by simp
next
  case (Cons x xs)
  have "py_find c xs + 1 \<noteq> - 1" using py_find_ge [of c xs] by linarith
  with Cons show ?case by (auto simp: Let_def)
qed

lemma py_rfind_ge: "- 1 \<le> py_rfind c s"
  by (induction s) (auto simp: Let_def)

lemma py_rfind_none: "py_rfind c s = - 1 \<longleftrightarrow> c \<notin> set s"
proof (induction s)
  case Nil
  then show ?case by simp
next
  case (Cons x xs)
  have "py_rfind c xs + 1 \<noteq> - 1" using py_rfind_ge [of c xs] by linarith
  with Cons show ?case by (auto simp: Let_def)
qed

section \<open>Valid JSON and the first substitution\<close>

subsection \<open>The grammar admits a colon only after a key\<close>

lemma run_append:
  "run s (xs @ ys) = (case run s xs of None \<Rightarrow> None | Some s' \<Rightarrow> run s' ys)"
  by (induction xs arbitrary: s) (auto split: option.splits)

lemma complete_not_KeyColon: "complete v st \<noteq> Some (KeyColon, st')"
  by (cases "(v, st)" rule: complete.cases) auto

lemma begin_value_not_KeyColon: "begin_value t st \<noteq> Some (KeyColon, st')"
  by (cases "(t, st)" rule: begin_value.cases) (auto simp: complete_not_KeyColon)

lemma step_scalar_not_KeyColon: "step s (ScalarTok v) \<noteq> Some (KeyColon, st')"
  by (cases "(s, ScalarTok v)" rule: step.cases)
    (auto simp: complete_not_KeyColon begin_value_not_KeyColon)

lemma step_Colon: "step (e, st) Colon = Some s' \<Longrightarrow> e = KeyColon"
  by (cases "((e, st), Colon)" rule: step.cases) auto

lemma run_no_scalar_colon:
  assumes "run s (us @ ScalarTok v # Colon # vs) = Some fin"
  shows False
proof -
  from assms obtain s1 where "run s1 (ScalarTok v # Colon # vs) = Some fin"
    by (auto simp: run_append split: option.splits)
  then obtain s2 s3 where a: "step s1 (ScalarTok v) = Some s2" and b: "step s2 Colon = Some s3"
    by (auto split: option.splits)
  obtain e st where s2: "s2 = (e, st)" by (cases s2)
  with b have "e = KeyColon" by (auto dest: step_Colon)
  with a s2 show False by (simp add: step_scalar_not_KeyColon)
qed

subsection \<open>Line feeds stand between tokens\<close>

lemma json_ws_space: "is_json_ws c \<Longrightarrow> is_space c"
  by (auto simp: is_json_ws_def is_space_def)

lemma tokens_skip_space:
  "tokens s = Some ts \<Longrightarrow> tokens (dropWhile is_space s) = Some ts"
proof (induction s)
  case Nil
  then show ?case by simp
next
  case (Cons c cs)
  show ?case
  proof (cases "is_space c")
    case False
    with Cons.prems show ?thesis by simp
  next
    case True
    have "is_json_ws c"
    proof (rule ccontr)
      assume "\<not> is_json_ws c"
      with True Cons.prems show False by (simp add: next_token_space)
    qed
    with Cons True show ?thesis by simp
  qed
qed

lemma append_eq_split:
  assumes "tok @ rest = pre @ x # suf" and "x \<notin> set tok"
  shows "\<exists>p. pre = tok @ p \<and> rest = p @ x # suf"
proof -
  from assms(1) obtain us where
    "(tok = pre @ us \<and> us @ rest = x # suf) \<or> (tok @ us = pre \<and> rest = us @ x # suf)"
    by (auto simp: append_eq_append_conv2)
  then show ?thesis
  proof
    assume a: "tok = pre @ us \<and> us @ rest = x # suf"
    show ?thesis
    proof (cases us)
      case Nil
      with a show ?thesis by simp
    next
      case (Cons u us')
      with a have "x \<in> set tok" by simp
      with assms(2) show ?thesis by simp
    qed
  next
    assume "tok @ us = pre \<and> rest = us @ x # suf"
    then show ?thesis by auto
  qed
qed

lemma tokens_newline_split:
  "tokens (pre @ 10 # suf) = Some ts \<Longrightarrow> \<exists>ts1 ts2. ts = ts1 @ ts2 \<and> tokens suf = Some ts2"
proof (induction "length pre" arbitrary: pre ts rule: less_induct)
  case less
  show ?case
  proof (cases pre)
    case Nil
    with less.prems have "tokens suf = Some ts" by (simp add: is_json_ws_def)
    then show ?thesis by simp
  next
    case (Cons c p)
    show ?thesis
    proof (cases "is_json_ws c")
      case True
      with Cons less.prems have "tokens (p @ 10 # suf) = Some ts" by simp
      moreover have "length p < length pre" using Cons by simp
      ultimately show ?thesis by (rule less.hyps [rotated])
    next
      case False
      with Cons less.prems obtain t rest ts' where
        nt: "next_token (pre @ 10 # suf) = Some (t, rest)"
        and tr: "tokens rest = Some ts'" and ts: "ts = t # ts'"
        by (auto split: option.splits)
      from next_token_consumed [OF nt] obtain tok where
        tok: "pre @ 10 # suf = tok @ rest" "tok \<noteq> []" "list_all (\<lambda>c. 32 \<le> c) tok"
        unfolding consumed_def by blast
      have "(10::nat) \<notin> set tok" using tok(3) by (auto simp: list_all_iff)
      with tok(1) obtain p' where p': "pre = tok @ p'" "rest = p' @ 10 # suf"
        using append_eq_split [of tok rest pre 10 suf] by auto
      have "length p' < length pre" using p'(1) tok(2) by (cases tok) auto
      moreover have "tokens (p' @ 10 # suf) = Some ts'" using tr p'(2) by simp
      ultimately obtain ts1 ts2 where "ts' = ts1 @ ts2" "tokens suf = Some ts2"
        using less.hyps by blast
      with ts have "ts = (t # ts1) @ ts2 \<and> tokens suf = Some ts2" by simp
      then show ?thesis by blast
    qed
  qed
qed


subsection \<open>A key pattern in a tokenised text ends in a scalar and a colon\<close>

text \<open>
  \<open>word_colon s\<close>: after the word characters at the head of \<open>s\<close> and white space comes
  a colon. This is the rest of the key pattern once its leading white space is read.
\<close>

definition word_colon :: "pystr \<Rightarrow> bool" where
  "word_colon s \<longleftrightarrow>
     (case dropWhile is_space (dropWhile is_word s) of [] \<Rightarrow> False | c # _ \<Rightarrow> c = 58)"

lemma word_not_space: "is_word c \<Longrightarrow> \<not> is_space c"
  by (auto simp: is_word_def is_space_def)

lemma word_colon_strip:
  "word_colon (tok @ r) \<Longrightarrow> list_all is_numchar tok \<Longrightarrow> word_colon r"
proof (induction tok)
  case Nil
  then show ?case by simp
next
  case (Cons x xs)
  show ?case
  proof (cases "is_word x")
    case True
    with Cons show ?thesis by (simp add: word_colon_def)
  next
    case False
    with Cons.prems(2) have "x = 43 \<or> x = 45 \<or> x = 46" by (simp add: is_numchar_def)
    then have "\<not> is_space x" "x \<noteq> 58" by (auto simp: is_space_def)
    with False Cons.prems(1) show ?thesis by (simp add: word_colon_def)
  qed
qed

lemma word_colon_tokens:
  "word_colon s \<Longrightarrow> tokens s = Some ts \<Longrightarrow>
   \<exists>vs rest. ts = map ScalarTok vs @ Colon # rest \<and> (is_word (hd s) \<longrightarrow> vs \<noteq> [])"
proof (induction "length s" arbitrary: s ts rule: less_induct)
  case less
  show ?case
  proof (cases s)
    case Nil
    with less.prems(1) show ?thesis by (simp add: word_colon_def)
  next
    case (Cons c cs)
    show ?thesis
    proof (cases "is_word c")
      case True
      then have "\<not> is_json_ws c" using json_ws_space word_not_space by blast
      with Cons less.prems(2) obtain t r ts' where
        nt: "next_token s = Some (t, r)" and tr: "tokens r = Some ts'" and ts: "ts = t # ts'"
        by (auto split: option.splits)
      from nt True Cons obtain v where t: "t = ScalarTok v"
        using next_token_word by blast
      from nt t have con: "consumed is_numchar s r" by (simp add: next_token_scalar)
      then obtain tok where tok: "s = tok @ r" "list_all is_numchar tok"
        unfolding consumed_def by blast
      with less.prems(1) have "word_colon r" using word_colon_strip by blast
      moreover have "length r < length s" using con by (rule consumed_shorter)
      ultimately obtain vs rest where "ts' = map ScalarTok vs @ Colon # rest"
        using less.hyps tr by blast
      with ts t have "ts = map ScalarTok (v # vs) @ Colon # rest" by simp
      then show ?thesis by blast
    next
      case False
      with Cons less.prems(1) have ds: "case dropWhile is_space s of [] \<Rightarrow> False | c # _ \<Rightarrow> c = 58"
        by (simp add: word_colon_def)
      show ?thesis
      proof (cases "c = 58")
        case True
        with Cons less.prems(2) obtain ts' where "ts = Colon # ts'"
          by (auto simp: is_json_ws_def next_token_def punctuation_def split: option.splits)
        then have "ts = map ScalarTok [] @ Colon # ts'" by simp
        with False Cons show ?thesis by (metis list.sel(1))
      next
        case c: False
        with ds Cons have sp: "is_space c" by (auto split: if_splits)
        have ws: "is_json_ws c"
        proof (rule ccontr)
          assume "\<not> is_json_ws c"
          with sp Cons less.prems(2) show False by (simp add: next_token_space)
        qed
        with Cons less.prems(2) have tcs: "tokens cs = Some ts" by simp
        from ds Cons sp have dcs: "case dropWhile is_space cs of [] \<Rightarrow> False | c # _ \<Rightarrow> c = 58"
          by simp
        have "dropWhile is_word cs = cs"
        proof (cases cs)
          case Nil
          then show ?thesis by simp
        next
          case (Cons d ds')
          have "\<not> is_word d"
          proof
            assume w: "is_word d"
            then have "\<not> is_space d" by (rule word_not_space)
            with dcs Cons have "d = 58" by simp
            with w show False by (simp add: is_word_def)
          qed
          with Cons show ?thesis by simp
        qed
        with dcs have "word_colon cs" by (simp add: word_colon_def)
        moreover have "length cs < length s" using Cons by simp
        ultimately obtain vs rest where "ts = map ScalarTok vs @ Colon # rest"
          using less.hyps tcs by blast
        with False Cons show ?thesis by (metis list.sel(1))
      qed
    qed
  qed
qed

lemma match_key_tokens:
  assumes "match_key s = Some (key, r)" and "tokens s = Some ts"
  shows "\<exists>us v vs. ts = us @ ScalarTok v # Colon # vs"
proof -
  let ?s1 = "dropWhile is_space s"
  from assms(1) have key: "takeWhile is_word ?s1 \<noteq> []"
    and s3: "dropWhile is_space (dropWhile is_word ?s1) = 58 # r"
    by (auto simp: match_key_def Let_def split: list.splits if_splits)
  have wc: "word_colon ?s1" unfolding word_colon_def s3 by simp
  from key have "is_word (hd ?s1)" by (cases ?s1) (auto split: if_splits)
  moreover have "tokens ?s1 = Some ts" using assms(2) by (rule tokens_skip_space)
  ultimately obtain vs rest where ts: "ts = map ScalarTok vs @ Colon # rest" and "vs \<noteq> []"
    using word_colon_tokens [OF wc] by blast
  then have "vs = butlast vs @ [last vs]" by simp
  then have "map ScalarTok vs = map ScalarTok (butlast vs) @ [ScalarTok (last vs)]"
    by (metis list.simps(8,9) map_append)
  with ts have "ts = map ScalarTok (butlast vs) @ ScalarTok (last vs) # Colon # rest" by simp
  then show ?thesis by blast
qed

subsection \<open>The first substitution leaves valid JSON unchanged\<close>

lemma sub_keys_unchanged:
  "(bol \<Longrightarrow> match_key s = None) \<Longrightarrow>
   (\<And>pre suf. s = pre @ 10 # suf \<Longrightarrow> match_key suf = None) \<Longrightarrow> sub_keys bol s = s"
proof (induction s arbitrary: bol)
  case Nil
  then show ?case by simp
next
  case (Cons c cs)
  have here: "(if bol then match_key (c # cs) else None) = None"
    using Cons.prems(1) by simp
  have "sub_keys (c = 10) cs = cs"
  proof (rule Cons.IH)
    assume "c = 10"
    then have "c # cs = [] @ 10 # cs" by simp
    then show "match_key cs = None" by (rule Cons.prems(2))
  next
    fix pre suf
    assume "cs = pre @ 10 # suf"
    then have "c # cs = (c # pre) @ 10 # suf" by simp
    then show "match_key suf = None" by (rule Cons.prems(2))
  qed
  with here show ?case by simp
qed

lemma json_loads_tokens:
  assumes "json_loads s = Inr v"
  obtains ts fin where "tokens s = Some ts" and "run (Value, []) ts = Some fin"
  using assms by (auto simp: json_loads_def split: option.splits)

lemma valid_json_no_key_match:
  assumes "json_loads s = Inr v"
  shows "sub_keys bol s = s"
proof -
  from assms obtain ts fin where ts: "tokens s = Some ts" and run: "run (Value, []) ts = Some fin"
    by (rule json_loads_tokens)
  show ?thesis
  proof (rule sub_keys_unchanged)
    show "match_key s = None"
    proof (cases "match_key s")
      case (Some kr)
      then obtain us w vs where "ts = us @ ScalarTok w # Colon # vs"
        using match_key_tokens [OF _ ts] by (cases kr) blast
      with run show ?thesis using run_no_scalar_colon by blast
    qed simp
  next
    fix pre suf
    assume "s = pre @ 10 # suf"
    with ts obtain ts1 ts2 where split: "ts = ts1 @ ts2" and t2: "tokens suf = Some ts2"
      using tokens_newline_split by blast
    show "match_key suf = None"
    proof (cases "match_key suf")
      case (Some kr)
      then obtain us w vs where "ts2 = us @ ScalarTok w # Colon # vs"
        using match_key_tokens [OF _ t2] by (cases kr) blast
      with split have "ts = (ts1 @ us) @ ScalarTok w # Colon # vs" by simp
      with run show ?thesis using run_no_scalar_colon by blast
    qed simp
  qed
qed

subsection \<open>The second substitution without a match\<close>

lemma sub_commas_unchanged: "\<not> has_trailing_comma s \<Longrightarrow> sub_commas s = s"
  by (induction s) (auto split: option.splits)

section \<open>Properties of the Page Isolator\<close>

lemma copy_page_single:
  assumes "copy_page flt src page_no = Inr part"
  shows "length (data part) = 1"
  using assms
  by (auto simp: copy_page_def bind_def lib_def insert_pdf_def
      split: sum.splits option.splits)

lemma image_page_result:
  assumes "1 \<le> page_no" and "page_no \<le> int (length src)" and "\<forall>c. flt c = None"
  shows "image_page flt src page_no =
     Inr \<lparr>data = [\<lparr>widgets = [],
                    page_rect = (0, 0, width (page_rect (src ! nat (page_no - 1))),
                                 height (page_rect (src ! nat (page_no - 1)))),
                    content = Image (page_rect (src ! nat (page_no - 1)))
                                    (get_pixmap (src ! nat (page_no - 1)))\<rparr>],
           mime_type = ustr ''application/pdf''\<rparr>"
  using assms
  by (simp add: image_page_def bind_def lib_def load_page_def new_page_def insert_image_def Let_def)

section \<open>Properties of the Field Inventory Extractor\<close>

lemma set_enumerate_from:
  "set (enumerate_from n xs) = {(n + int i, xs ! i) | i. i < length xs}"
proof (induction xs arbitrary: n)
  case Nil
  then show ?case by simp
next
  case (Cons x xs)
  show ?case
  proof (rule set_eqI)
    fix p
    show "p \<in> set (enumerate_from n (x # xs))
      \<longleftrightarrow> p \<in> {(n + int i, (x # xs) ! i) | i. i < length (x # xs)}"
    proof
      assume "p \<in> set (enumerate_from n (x # xs))"
      then consider "p = (n, x)" | i where "i < length xs" "p = (n + 1 + int i, xs ! i)"
        using Cons.IH [of "n + 1"] by auto
      then show "p \<in> {(n + int i, (x # xs) ! i) | i. i < length (x # xs)}"
      proof cases
        case 1
        then have "p = (n + int 0, (x # xs) ! 0) \<and> 0 < length (x # xs)" by simp
        then show ?thesis by blast
      next
        case 2
        then have "p = (n + int (Suc i), (x # xs) ! Suc i) \<and> Suc i < length (x # xs)" by simp
        then show ?thesis by blast
      qed
    next
      assume "p \<in> {(n + int i, (x # xs) ! i) | i. i < length (x # xs)}"
      then obtain i where i: "i < length (x # xs)" "p = (n + int i, (x # xs) ! i)" by blast
      show "p \<in> set (enumerate_from n (x # xs))"
      proof (cases i)
        case 0
        with i show ?thesis by simp
      next
        case (Suc k)
        with i have "k < length xs" "p = (n + 1 + int k, xs ! k)" by simp_all
        then have "p \<in> set (enumerate_from (n + 1) xs)" using Cons.IH [of "n + 1"] by blast
        then show ?thesis by simp
      qed
    qed
  qed
qed

lemma set_extract_fields:
  "set (extract_fields_with_positions doc)
     = {field_of (1 + int i) w | i w. i < length doc \<and> w \<in> set (widgets (doc ! i))}"
  unfolding extract_fields_with_positions_def
  by (auto simp: set_enumerate_from)

section \<open>Properties of the Form Filler\<close>

lemma fill_nth:
  assumes "i < length doc" and "j < length (widgets (doc ! i))"
  shows "length (fill env m doc) = length doc"
    and "length (widgets (fill env m doc ! i)) = length (widgets (doc ! i))"
    and "widgets (fill env m doc ! i) ! j = fill_widget env m (widgets (doc ! i) ! j)"
  using assms by (simp_all add: fill_def)

lemma map_of_None_iff: "map_of m k = None \<longleftrightarrow> k \<notin> fst ` set m"
  by (simp add: map_of_eq_None_iff)

section \<open>Properties of the page loop\<close>

lemma page_loop_append:
  "page_loop env pa info (xs @ ys) st = bind (page_loop env pa info xs st) (page_loop env pa info ys)"
  by (induction xs arbitrary: st) (auto simp: bind_def split: sum.splits)

lemma process_page_parse_failure:
  assumes "make_page_part (fault env page_no) pa page_no = Inr page_part"
    and "page_parse_failure env info page_no page_part page_fields = Some e"
  shows "process_page env pa info (page_no, page_fields) st = Inl e"
  using assms
  by (cases st)
    (auto simp: process_page_def page_parse_failure_def recover_and_parse_def bind_def
      split: sum.splits)

lemma form_pages:
  "sort_key fst (fields_by_page (extract_fields_with_positions form)) =
     [(1, [\<lparr>pf_id = ustr ''T1'', pf_type = ustr ''text'', pf_rect = [72, 100, 300, 120]\<rparr>]),
      (2, [\<lparr>pf_id = ustr ''CB1'', pf_type = ustr ''checkbox'', pf_rect = [72, 200, 84, 212]\<rparr>])]"
  by (simp add: extract_fields_with_positions_def form_def field_of_def T1_def CB1_def
      rect_floats_def fields_by_page_def setdefault_append_def)

lemma form_info:
  "extract_patient_info (world c1 m2) referral form =
     Inr (PDict [(ustr ''patient_info'',
            PDict [(ustr ''First_Name'', PStr (ustr ''Jane'')), (ustr ''Smoker'', PBool True)])])"
proof -
  have r: "extract_json (ustr ''{\"patient_info\": {\"First_Name\": \"Jane\", \"Smoker\": true}}'')
      = Inr (ustr ''{\"patient_info\": {\"First_Name\": \"Jane\", \"Smoker\": true}}'')"
    by (simp add: recoverer_eval)
  have p: "json_loads (ustr ''{\"patient_info\": {\"First_Name\": \"Jane\", \"Smoker\": true}}'')
      = Inr (PDict [(ustr ''patient_info'',
            PDict [(ustr ''First_Name'', PStr (ustr ''Jane'')), (ustr ''Smoker'', PBool True)])])"
    by (simp add: json_eval)
  show ?thesis
    by (simp add: extract_patient_info_def world_def answers_def bind_def r p)
qed

lemma form_part:
  "make_page_part (fault (world c1 m2) n) form 1 =
     Inr \<lparr>data = [\<lparr>widgets = [], page_rect = (0, 0, 612, 792), content = Drawn 1\<rparr>],
           mime_type = ustr ''application/pdf''\<rparr>"
  "make_page_part (fault (world c1 m2) n) form 2 =
     Inr \<lparr>data = [\<lparr>widgets = [], page_rect = (0, 0, 612, 792), content = Drawn 2\<rparr>],
           mime_type = ustr ''application/pdf''\<rparr>"
  by (simp_all add: pdf_eval world_def form_def)

lemma refusal_fails: "recover_and_parse (ustr ''I cannot annotate this page.'')
    = Inl (ValueError (ustr ''No JSON object found''))"
  by (simp add: recover_and_parse_def bind_def recoverer_eval)


lemma parsed_answers:
  "recover_and_parse (ustr ''{\"T1\": {\"question\": \"Patient First Name\"}}'')
     = Inr (PDict [(ustr ''T1'', PDict [(ustr ''question'', PStr (ustr ''Patient First Name''))])])"
  "recover_and_parse (ustr ''{\"CB1\": {\"question\": \"Is patient a smoker?\"}}'')
     = Inr (PDict [(ustr ''CB1'', PDict [(ustr ''question'', PStr (ustr ''Is patient a smoker?''))])])"
  "recover_and_parse (ustr ''Here you go: {\"T1\": \"Jane\"}'')
     = Inr (PDict [(ustr ''T1'', PStr (ustr ''Jane''))])"
  "recover_and_parse (ustr ''{\"CB1\": true}'') = Inr (PDict [(ustr ''CB1'', PBool True)])"
  "recover_and_parse (ustr ''{CB1: true}'') = Inl JSONDecodeError"
proof -
  have r: "extract_json (ustr ''{\"T1\": {\"question\": \"Patient First Name\"}}'')
      = Inr (ustr ''{\"T1\": {\"question\": \"Patient First Name\"}}'')"
    "extract_json (ustr ''{\"CB1\": {\"question\": \"Is patient a smoker?\"}}'')
      = Inr (ustr ''{\"CB1\": {\"question\": \"Is patient a smoker?\"}}'')"
    "extract_json (ustr ''Here you go: {\"T1\": \"Jane\"}'') = Inr (ustr ''{\"T1\": \"Jane\"}'')"
    "extract_json (ustr ''{\"CB1\": true}'') = Inr (ustr ''{\"CB1\": true}'')"
    "extract_json (ustr ''{CB1: true}'') = Inr (ustr ''{CB1: true}'')"
    by (simp_all add: recoverer_eval)
  have p: "json_loads (ustr ''{\"T1\": {\"question\": \"Patient First Name\"}}'')
      = Inr (PDict [(ustr ''T1'', PDict [(ustr ''question'', PStr (ustr ''Patient First Name''))])])"
    "json_loads (ustr ''{\"CB1\": {\"question\": \"Is patient a smoker?\"}}'')
      = Inr (PDict [(ustr ''CB1'', PDict [(ustr ''question'', PStr (ustr ''Is patient a smoker?''))])])"
    "json_loads (ustr ''{\"T1\": \"Jane\"}'') = Inr (PDict [(ustr ''T1'', PStr (ustr ''Jane''))])"
    "json_loads (ustr ''{\"CB1\": true}'') = Inr (PDict [(ustr ''CB1'', PBool True)])"
    "json_loads (ustr ''{CB1: true}'') = Inl JSONDecodeError"
    by (simp_all add: json_eval)
  show "recover_and_parse (ustr ''{\"T1\": {\"question\": \"Patient First Name\"}}'')
     = Inr (PDict [(ustr ''T1'', PDict [(ustr ''question'', PStr (ustr ''Patient First Name''))])])"
    "recover_and_parse (ustr ''{\"CB1\": {\"question\": \"Is patient a smoker?\"}}'')
     = Inr (PDict [(ustr ''CB1'', PDict [(ustr ''question'', PStr (ustr ''Is patient a smoker?''))])])"
    "recover_and_parse (ustr ''Here you go: {\"T1\": \"Jane\"}'')
     = Inr (PDict [(ustr ''T1'', PStr (ustr ''Jane''))])"
    "recover_and_parse (ustr ''{\"CB1\": true}'') = Inr (PDict [(ustr ''CB1'', PBool True)])"
    "recover_and_parse (ustr ''{CB1: true}'') = Inl JSONDecodeError"
    by (simp_all add: recover_and_parse_def bind_def r p)
qed

lemma process_page_recover:
  "process_page env pa info (page_no, page_fields) (ctxs, fm) =
     bind (make_page_part (fault env page_no) pa page_no) (\<lambda>page_part.
     bind (generate_content env (ContextRequest page_no page_part page_fields)) (\<lambda>resp_ctx.
     bind (recover_and_parse resp_ctx) (\<lambda>ctx.
     bind (generate_content env (MappingRequest page_no page_part info ctx)) (\<lambda>resp_map.
     bind (recover_and_parse resp_map) (\<lambda>mapping.
     bind (dict_update fm mapping) (\<lambda>fm'.
     Inr (dict_set page_no ctx ctxs, fm')))))))"
  by (simp add: process_page_def recover_and_parse_def bind_def Let_def split: sum.splits)

section \<open>The claims\<close>

text \<open>
  C1 (as stated). The claim fails: no statement of the page loop stands in a \<open>try\<close>. On
  the two-page form, when the oracle answers the context prompt of page 1 with prose
  and every other prompt with valid JSON, the exception of the Recoverer ends the run:
  page 2 is not processed and no form is filled.
\<close>

theorem page_failure_aborts_the_run:
  "process_and_fill
     (world (ustr ''I cannot annotate this page.'') (ustr ''{\"CB1\": true}''))
     (Some form) (Some referral)
   = Raised (ValueError (ustr ''No JSON object found''))"
proof -
  let ?env = "world (ustr ''I cannot annotate this page.'') (ustr ''{\"CB1\": true}'')"
  have g: "generate_content ?env = answers (ustr ''I cannot annotate this page.'')
      (ustr ''{\"CB1\": true}'')"
    by (simp add: world_def)
  have loop: "page_loop ?env form
      (PDict [(ustr ''patient_info'',
            PDict [(ustr ''First_Name'', PStr (ustr ''Jane'')), (ustr ''Smoker'', PBool True)])])
      (sort_key fst (fields_by_page (extract_fields_with_positions form))) ([], [])
    = Inl (ValueError (ustr ''No JSON object found''))"
    unfolding form_pages
    by (simp add: process_page_recover form_part g answers_def refusal_fails bind_def)
  show ?thesis
    by (simp add: process_and_fill_def form_info loop)
qed

text \<open>
  With valid JSON for every prompt the same run reaches the Form Filler with both fields
  in the map: the map of the end-to-end scenario of the specification.
\<close>

lemma end_to_end_scenario:
  "process_and_fill
     (world (ustr ''{\"T1\": {\"question\": \"Patient First Name\"}}'') (ustr ''{\"CB1\": true}''))
     (Some form) (Some referral)
   = Download
       (fill (world (ustr ''{\"T1\": {\"question\": \"Patient First Name\"}}'') (ustr ''{\"CB1\": true}''))
          [(ustr ''T1'', PStr (ustr ''Jane'')), (ustr ''CB1'', PBool True)] form)"
proof -
  let ?env = "world (ustr ''{\"T1\": {\"question\": \"Patient First Name\"}}'') (ustr ''{\"CB1\": true}'')"
  have g: "generate_content ?env = answers (ustr ''{\"T1\": {\"question\": \"Patient First Name\"}}'')
      (ustr ''{\"CB1\": true}'')"
    by (simp add: world_def)
  have loop: "page_loop ?env form
      (PDict [(ustr ''patient_info'',
            PDict [(ustr ''First_Name'', PStr (ustr ''Jane'')), (ustr ''Smoker'', PBool True)])])
      (sort_key fst (fields_by_page (extract_fields_with_positions form))) ([], [])
    = Inr ([(1, PDict [(ustr ''T1'', PDict [(ustr ''question'', PStr (ustr ''Patient First Name''))])]),
            (2, PDict [(ustr ''CB1'', PDict [(ustr ''question'', PStr (ustr ''Is patient a smoker?''))])])],
           [(ustr ''T1'', PStr (ustr ''Jane'')), (ustr ''CB1'', PBool True)])"
    unfolding form_pages
    by (simp add: process_page_recover form_part g answers_def parsed_answers bind_def
        dict_update_def) (simp add: ustr_def)
  show ?thesis
    by (simp add: process_and_fill_def form_info loop)
qed

text \<open>
  C1 (amended). When recovery or strict parsing fails on the context response or on the
  mapping response of a page, the exception is not caught: it ends the page loop at that
  page and the whole run with it. The pages after it are not processed and no filled
  form is produced, whatever the oracle would have answered for them.
\<close>

theorem page_failure_ends_run:
  assumes "extract_patient_info env ref_bytes pa_bytes = Inr patient_info"
    and "sort_key fst (fields_by_page (extract_fields_with_positions pa_bytes))
           = before @ (page_no, page_fields) # after"
    and "page_loop env pa_bytes patient_info before ([], []) = Inr state"
    and "make_page_part (fault env page_no) pa_bytes page_no = Inr page_part"
    and "page_parse_failure env patient_info page_no page_part page_fields = Some e"
  shows "process_and_fill env (Some pa_bytes) (Some ref_bytes) = Raised e"
proof -
  have "process_page env pa_bytes patient_info (page_no, page_fields) state = Inl e"
    using assms(4,5) by (rule process_page_parse_failure)
  then have "page_loop env pa_bytes patient_info ((page_no, page_fields) # after) state = Inl e"
    by (simp add: bind_def)
  with assms(3) have "page_loop env pa_bytes patient_info
      (before @ (page_no, page_fields) # after) ([], []) = Inl e"
    by (simp add: page_loop_append bind_def)
  with assms(1,2) show ?thesis by (simp add: process_and_fill_def)
qed

theorem page_failure_ends_run_witness:
  "process_and_fill
     (world (ustr ''{\"T1\": {\"question\": \"Patient First Name\"}}'') (ustr ''{CB1: true}''))
     (Some form) (Some referral)
   = Raised JSONDecodeError"
proof -
  let ?env = "world (ustr ''{\"T1\": {\"question\": \"Patient First Name\"}}'') (ustr ''{CB1: true}'')"
  let ?info = "PDict [(ustr ''patient_info'',
            PDict [(ustr ''First_Name'', PStr (ustr ''Jane'')), (ustr ''Smoker'', PBool True)])]"
  let ?f1 = "[\<lparr>pf_id = ustr ''T1'', pf_type = ustr ''text'', pf_rect = [72, 100, 300, 120]\<rparr>]"
  let ?f2 = "[\<lparr>pf_id = ustr ''CB1'', pf_type = ustr ''checkbox'', pf_rect = [72, 200, 84, 212]\<rparr>]"
  let ?part2 = "\<lparr>data = [\<lparr>widgets = [], page_rect = (0, 0, 612, 792), content = Drawn 2\<rparr>],
           mime_type = ustr ''application/pdf''\<rparr>"
  have g: "generate_content ?env = answers (ustr ''{\"T1\": {\"question\": \"Patient First Name\"}}'')
      (ustr ''{CB1: true}'')"
    by (simp add: world_def)
  have a: "extract_patient_info ?env referral form = Inr ?info" by (rule form_info)
  have b: "sort_key fst (fields_by_page (extract_fields_with_positions form))
      = [(1, ?f1)] @ (2, ?f2) # []"
    by (simp add: form_pages)
  have c: "page_loop ?env form ?info [(1, ?f1)] ([], [])
      = Inr ([(1, PDict [(ustr ''T1'', PDict [(ustr ''question'', PStr (ustr ''Patient First Name''))])])],
             [(ustr ''T1'', PStr (ustr ''Jane''))])"
    by (simp add: process_page_recover form_part g answers_def parsed_answers bind_def
        dict_update_def)
  have d: "make_page_part (fault ?env 2) form 2 = Inr ?part2" by (rule form_part)
  have e: "page_parse_failure ?env ?info 2 ?part2 ?f2 = Some JSONDecodeError"
    by (simp add: page_parse_failure_def g answers_def parsed_answers)
  from page_failure_ends_run [OF a b c d e] show ?thesis .
qed

text \<open>
  C2. \<open>extract_json\<close> raises \<open>ValueError("No JSON object found")\<close> exactly when the text
  has no \<open>{\<close> or no \<open>}\<close>; when it has both, it returns a string.
\<close>

theorem extract_json_raises_iff:
  "(extract_json text = Inl (ValueError (ustr ''No JSON object found'')))
     = (123 \<notin> set text \<or> 125 \<notin> set text)
   \<and> (\<exists>raw. extract_json text = Inr raw) = (123 \<in> set text \<and> 125 \<in> set text)"
  by (auto simp: extract_json_def Let_def py_find_none py_rfind_none)

theorem extract_json_raises_iff_witness:
  "extract_json (ustr ''Sorry, no fields.'') = Inl (ValueError (ustr ''No JSON object found''))
   \<and> (\<exists>raw. extract_json (ustr ''Here: {\"T1\": \"Jane\"}'') = Inr raw)"
  using extract_json_raises_iff [of "ustr ''Sorry, no fields.''"]
    extract_json_raises_iff [of "ustr ''Here: {\"T1\": \"Jane\"}''"]
  by (simp add: ustr_def)

text \<open>
  C3 (as stated). The claim fails: the second pattern is applied to the whole slice, string
  literals included. In the valid object \<open>{"a": ",}"}\<close> the string \<open>,}\<close> loses its comma,
  and the parsed objects differ.
\<close>

theorem recoverer_changes_valid_json:
  "json_loads (embedded_object (ustr ''Result: {\"a\": \",}\"} done''))
     = Inr (PDict [(ustr ''a'', PStr (ustr '',}''))])
   \<and> extract_json (ustr ''Result: {\"a\": \",}\"} done'') = Inr (ustr ''{\"a\": \"}\"}'')
   \<and> json_loads (ustr ''{\"a\": \"}\"}'') = Inr (PDict [(ustr ''a'', PStr (ustr ''}''))])
   \<and> PDict [(ustr ''a'', PStr (ustr '',}''))] \<noteq> PDict [(ustr ''a'', PStr (ustr ''}''))]"
proof -
  have e: "embedded_object (ustr ''Result: {\"a\": \",}\"} done'') = ustr ''{\"a\": \",}\"}''"
    by (simp add: recoverer_eval)
  have a: "json_loads (ustr ''{\"a\": \",}\"}'') = Inr (PDict [(ustr ''a'', PStr (ustr '',}''))])"
    by (simp add: json_eval)
  have b: "extract_json (ustr ''Result: {\"a\": \",}\"} done'') = Inr (ustr ''{\"a\": \"}\"}'')"
    by (simp add: recoverer_eval)
  have c: "json_loads (ustr ''{\"a\": \"}\"}'') = Inr (PDict [(ustr ''a'', PStr (ustr ''}''))])"
    by (simp add: json_eval)
  have d: "PDict [(ustr ''a'', PStr (ustr '',}''))] \<noteq> PDict [(ustr ''a'', PStr (ustr ''}''))]"
    by (simp add: ustr_def)
  from e a b c d show ?thesis by simp
qed

text \<open>
  C3 (amended). For every text with a \<open>{\<close> and a \<open>}\<close> whose embedded object, from the
  first \<open>{\<close> to the last \<open>}\<close>, parses strictly and nowhere has a comma followed, after
  optional white space, by \<open>}\<close> or \<open>]\<close>, the Recoverer returns the embedded object
  unchanged; parsing its output gives the object that parsing the embedded object gives.
  In particular the first pattern, the one that quotes keys, never matches in valid JSON.
\<close>

theorem recoverer_preserves_valid_json:
  assumes "123 \<in> set text" and "125 \<in> set text"
    and "json_loads (embedded_object text) = Inr v"
    and "\<not> has_trailing_comma (embedded_object text)"
  shows "\<exists>raw. extract_json text = Inr raw \<and> raw = embedded_object text \<and> json_loads raw = Inr v"
proof -
  have s: "py_find 123 text \<noteq> - 1" using assms(1) by (simp add: py_find_none)
  have e: "py_rfind 125 text \<noteq> - 1" using assms(2) by (simp add: py_rfind_none)
  have k: "sub_keys True (embedded_object text) = embedded_object text"
    using assms(3) by (rule valid_json_no_key_match)
  have c: "sub_commas (embedded_object text) = embedded_object text"
    using assms(4) by (rule sub_commas_unchanged)
  from s e k c have "extract_json text = Inr (embedded_object text)"
    by (simp add: extract_json_def Let_def embedded_object_def)
  with assms(3) show ?thesis by simp
qed

theorem recoverer_preserves_valid_json_witness:
  "123 \<in> set (ustr ''Sure! {\"T1\": \"Doe, Jane\", \"CB1\": true} Done.'')
   \<and> 125 \<in> set (ustr ''Sure! {\"T1\": \"Doe, Jane\", \"CB1\": true} Done.'')
   \<and> json_loads (embedded_object (ustr ''Sure! {\"T1\": \"Doe, Jane\", \"CB1\": true} Done.''))
       = Inr (PDict [(ustr ''T1'', PStr (ustr ''Doe, Jane'')), (ustr ''CB1'', PBool True)])
   \<and> \<not> has_trailing_comma (embedded_object (ustr ''Sure! {\"T1\": \"Doe, Jane\", \"CB1\": true} Done.''))
   \<and> (\<exists>raw. extract_json (ustr ''Sure! {\"T1\": \"Doe, Jane\", \"CB1\": true} Done.'') = Inr raw
        \<and> raw = embedded_object (ustr ''Sure! {\"T1\": \"Doe, Jane\", \"CB1\": true} Done.'')
        \<and> json_loads raw
            = Inr (PDict [(ustr ''T1'', PStr (ustr ''Doe, Jane'')), (ustr ''CB1'', PBool True)]))"
proof -
  let ?t = "ustr ''Sure! {\"T1\": \"Doe, Jane\", \"CB1\": true} Done.''"
  have e: "embedded_object ?t = ustr ''{\"T1\": \"Doe, Jane\", \"CB1\": true}''"
    by (simp add: recoverer_eval)
  have a: "123 \<in> set ?t" by (simp add: ustr_def)
  have b: "125 \<in> set ?t" by (simp add: ustr_def)
  have c: "json_loads (embedded_object ?t)
      = Inr (PDict [(ustr ''T1'', PStr (ustr ''Doe, Jane'')), (ustr ''CB1'', PBool True)])"
    unfolding e by (simp add: json_eval)
  have d: "\<not> has_trailing_comma (embedded_object ?t)"
    unfolding e by (simp add: recoverer_eval)
  from a b c d recoverer_preserves_valid_json [OF a b c d] show ?thesis by blast
qed

text \<open>
  C4 (as stated). The claim fails on the one-line text: no key stands at a line start, so
  no key is quoted; only the trailing comma goes, and strict parsing refuses the output.
  The same holds when the closing delimiter is a brace of its own.
\<close>

theorem recoverer_one_line_keys_stay_unquoted:
  "extract_json (ustr ''{foo: 1, bar: \"x\",}'') = Inr (ustr ''{foo: 1, bar: \"x\"}'')
   \<and> json_loads (ustr ''{foo: 1, bar: \"x\"}'') = Inl JSONDecodeError
   \<and> extract_json (ustr ''{foo: 1, bar: \"x\",}}'') = Inr (ustr ''{foo: 1, bar: \"x\"}}'')
   \<and> json_loads (ustr ''{foo: 1, bar: \"x\"}}'') = Inl JSONDecodeError"
proof -
  have a: "extract_json (ustr ''{foo: 1, bar: \"x\",}'') = Inr (ustr ''{foo: 1, bar: \"x\"}'')"
    by (simp add: recoverer_eval)
  have b: "json_loads (ustr ''{foo: 1, bar: \"x\"}'') = Inl JSONDecodeError"
    by (simp add: json_eval)
  have c: "extract_json (ustr ''{foo: 1, bar: \"x\",}}'') = Inr (ustr ''{foo: 1, bar: \"x\"}}'')"
    by (simp add: recoverer_eval)
  have d: "json_loads (ustr ''{foo: 1, bar: \"x\"}}'') = Inl JSONDecodeError"
    by (simp add: json_eval)
  from a b c d show ?thesis by simp
qed

text \<open>
  C4 (amended). When each of the keys \<open>foo\<close> and \<open>bar\<close> starts a line of its own, the
  Recoverer quotes both and removes the trailing comma, and its output parses strictly to
  \<open>{"foo": 1, "bar": "x"}\<close>. On the one-line text it removes the trailing comma and
  quotes no key.
\<close>

theorem recoverer_repairs_keys_at_line_starts:
  "extract_json (ustr ''{\<newline>foo: 1,\<newline>bar: \"x\",\<newline>}'')
     = Inr (ustr ''{\<newline>\"foo\": 1,\<newline>\"bar\": \"x\"}'')
   \<and> json_loads (ustr ''{\<newline>\"foo\": 1,\<newline>\"bar\": \"x\"}'')
     = Inr (PDict [(ustr ''foo'', PInt 1), (ustr ''bar'', PStr (ustr ''x''))])
   \<and> extract_json (ustr ''{foo: 1, bar: \"x\",}'') = Inr (ustr ''{foo: 1, bar: \"x\"}'')"
proof -
  have a: "extract_json (ustr ''{\<newline>foo: 1,\<newline>bar: \"x\",\<newline>}'')
     = Inr (ustr ''{\<newline>\"foo\": 1,\<newline>\"bar\": \"x\"}'')"
    by (simp add: recoverer_eval)
  have b: "json_loads (ustr ''{\<newline>\"foo\": 1,\<newline>\"bar\": \"x\"}'')
     = Inr (PDict [(ustr ''foo'', PInt 1), (ustr ''bar'', PStr (ustr ''x''))])"
    by (simp add: json_eval)
  have c: "extract_json (ustr ''{foo: 1, bar: \"x\",}'') = Inr (ustr ''{foo: 1, bar: \"x\"}'')"
    by (simp add: recoverer_eval)
  from a b c show ?thesis by simp
qed

text \<open>
  C5. For a document that opens, a page number of the document and a library whose
  rendering calls do not raise, \<open>make_page_part\<close> returns a document of one page. When
  the copy raises, whatever it raises and at whichever call, the exception does not leave
  the function: the result is one new page of the width and height of the original
  page, holding the image of the original page.
\<close>

theorem make_page_part_never_propagates:
  assumes "flt CopyPath OpenStream = None"
    and "1 \<le> page_no" and "page_no \<le> int (length pdf_bytes)"
    and "\<forall>c. flt ImagePath c = None"
  shows "(\<exists>part. make_page_part flt pdf_bytes page_no = Inr part \<and> length (data part) = 1)
    \<and> ((\<exists>e. copy_page (flt CopyPath) pdf_bytes page_no = Inl e) \<longrightarrow>
        make_page_part flt pdf_bytes page_no =
          Inr \<lparr>data = [\<lparr>widgets = [],
                         page_rect = (0, 0, width (page_rect (pdf_bytes ! nat (page_no - 1))),
                                      height (page_rect (pdf_bytes ! nat (page_no - 1)))),
                         content = Image (page_rect (pdf_bytes ! nat (page_no - 1)))
                                         (get_pixmap (pdf_bytes ! nat (page_no - 1)))\<rparr>],
                mime_type = ustr ''application/pdf''\<rparr>)"
proof (cases "copy_page (flt CopyPath) pdf_bytes page_no")
  case (Inr part)
  then have "make_page_part flt pdf_bytes page_no = Inr part"
    using assms(1) by (simp add: make_page_part_def bind_def lib_def)
  with Inr show ?thesis by (simp add: copy_page_single)
next
  case (Inl e)
  then have "make_page_part flt pdf_bytes page_no = image_page (flt ImagePath) pdf_bytes page_no"
    using assms(1) by (simp add: make_page_part_def bind_def lib_def)
  with image_page_result [OF assms(2,3,4)] show ?thesis by simp
qed

theorem make_page_part_never_propagates_witness:
  "copy_page (broken_xref CopyPath) form 2 = Inl (LibraryError 1)
   \<and> make_page_part broken_xref form 2 =
       Inr \<lparr>data = [\<lparr>widgets = [], page_rect = (0, 0, 612, 792),
                      content = Image (0, 0, 612, 792) (Pixmap (Drawn 2) [CB1])\<rparr>],
             mime_type = ustr ''application/pdf''\<rparr>"
proof -
  have a: "broken_xref CopyPath OpenStream = None" by (simp add: broken_xref_def)
  have b: "(1::int) \<le> 2" by simp
  have c: "2 \<le> int (length form)" by (simp add: form_def)
  have d: "\<forall>c. broken_xref ImagePath c = None" by (simp add: broken_xref_def)
  have e: "copy_page (broken_xref CopyPath) form 2 = Inl (LibraryError 1)"
    by (simp add: pdf_eval broken_xref_def form_def)
  from make_page_part_never_propagates [OF a b c d] e
  show ?thesis by (simp add: form_def get_pixmap_def width_def height_def)
qed

text \<open>
  C6 (as stated). The claim fails: PDF lets one field have widgets on several pages, and
  the extractor tags each widget with the page it is found on. The form whose pages 1 and
  2 both carry a widget named \<open>T1\<close> yields two descriptors named \<open>T1\<close>, of pages 1 and 2.
\<close>

theorem extract_fields_same_name_two_pages:
  "extract_fields_with_positions twin_form =
     [\<lparr>fd_name = ustr ''T1'', fd_type = ustr ''text'', fd_value = PStr [], fd_page = 1,
       fd_rect = [72, 100, 300, 120]\<rparr>,
      \<lparr>fd_name = ustr ''T1'', fd_type = ustr ''text'', fd_value = PStr [], fd_page = 2,
       fd_rect = [72, 100, 300, 120]\<rparr>]"
  by (simp add: extract_fields_with_positions_def twin_form_def field_of_def T1_def
      rect_floats_def)

text \<open>
  C6 (amended). For every form, every descriptor carries the name of a widget and the
  number of the page that holds this widget. So when no field name occurs on widgets of
  two different pages of the form, any two descriptors with the same name have the same
  page number.
\<close>

theorem extract_fields_page_of_widget:
  "(\<forall>f \<in> set (extract_fields_with_positions doc).
      \<exists>i < length doc. \<exists>w \<in> set (widgets (doc ! i)).
        fd_name f = field_name w \<and> fd_page f = 1 + int i)
   \<and> ((\<forall>i < length doc. \<forall>j < length doc.
          \<forall>w \<in> set (widgets (doc ! i)). \<forall>v \<in> set (widgets (doc ! j)).
            field_name w = field_name v \<longrightarrow> i = j)
        \<longrightarrow> (\<forall>f \<in> set (extract_fields_with_positions doc).
               \<forall>g \<in> set (extract_fields_with_positions doc).
                 fd_name f = fd_name g \<longrightarrow> fd_page f = fd_page g))"
proof (intro conjI ballI impI)
  fix f
  assume "f \<in> set (extract_fields_with_positions doc)"
  then obtain i w where "i < length doc" "w \<in> set (widgets (doc ! i))" "f = field_of (1 + int i) w"
    unfolding set_extract_fields by blast
  then show "\<exists>i < length doc. \<exists>w \<in> set (widgets (doc ! i)).
      fd_name f = field_name w \<and> fd_page f = 1 + int i"
    by (auto simp: field_of_def)
next
  fix f g
  assume disjoint: "\<forall>i < length doc. \<forall>j < length doc.
      \<forall>w \<in> set (widgets (doc ! i)). \<forall>v \<in> set (widgets (doc ! j)).
        field_name w = field_name v \<longrightarrow> i = j"
  assume "f \<in> set (extract_fields_with_positions doc)"
    and "g \<in> set (extract_fields_with_positions doc)" and eq: "fd_name f = fd_name g"
  then obtain i w j v where
    f: "i < length doc" "w \<in> set (widgets (doc ! i))" "f = field_of (1 + int i) w"
    and g: "j < length doc" "v \<in> set (widgets (doc ! j))" "g = field_of (1 + int j) v"
    unfolding set_extract_fields by blast
  from eq f(3) g(3) have "field_name w = field_name v" by (simp add: field_of_def)
  with disjoint f(1,2) g(1,2) have "i = j" by blast
  with f(3) g(3) show "fd_page f = fd_page g" by (simp add: field_of_def)
qed

theorem extract_fields_page_of_widget_witness:
  "(\<exists>i < length form. \<exists>w \<in> set (widgets (form ! i)).
      fd_name (field_of 2 CB1) = field_name w \<and> fd_page (field_of 2 CB1) = 1 + int i)
   \<and> set (extract_fields_with_positions form) = {field_of 1 T1, field_of 2 CB1}"
proof -
  have names: "field_name T1 \<noteq> field_name CB1" by (simp add: T1_def CB1_def ustr_def)
  have len: "length form = 2" by (simp add: form_def)
  have w0: "widgets (form ! 0) = [T1]" and w1: "widgets (form ! Suc 0) = [CB1]"
    by (simp_all add: form_def)
  have disjoint: "\<forall>i < length form. \<forall>j < length form.
             \<forall>w \<in> set (widgets (form ! i)). \<forall>v \<in> set (widgets (form ! j)).
               field_name w = field_name v \<longrightarrow> i = j"
    using names by (auto simp: len w0 w1 less_Suc_eq numeral_2_eq_2)
  have ex: "extract_fields_with_positions form = [field_of 1 T1, field_of 2 CB1]"
    by (simp add: extract_fields_with_positions_def form_def)
  from extract_fields_page_of_widget [of form] disjoint ex show ?thesis by simp
qed

text \<open>
  C7. A widget whose field name is not a key of the map is the same widget after the
  fill: the filled document has the pages and widgets of the source, and such a widget
  keeps its value.
\<close>

theorem fill_leaves_unmapped_fields:
  assumes "i < length doc" and "j < length (widgets (doc ! i))"
    and "field_name (widgets (doc ! i) ! j) \<notin> fst ` set field_mapping"
  shows "length (fill env field_mapping doc) = length doc
    \<and> length (widgets (fill env field_mapping doc ! i)) = length (widgets (doc ! i))
    \<and> widgets (fill env field_mapping doc ! i) ! j = widgets (doc ! i) ! j
    \<and> field_value (widgets (fill env field_mapping doc ! i) ! j)
        = field_value (widgets (doc ! i) ! j)"
proof -
  have "map_of field_mapping (field_name (widgets (doc ! i) ! j)) = None"
    using assms(3) by (simp add: map_of_None_iff)
  then have "fill_widget env field_mapping (widgets (doc ! i) ! j) = widgets (doc ! i) ! j"
    by (simp add: fill_widget_def)
  with fill_nth [OF assms(1,2), where env = env and m = field_mapping] show ?thesis by simp
qed

theorem fill_leaves_unmapped_fields_witness:
  "(0::nat) < length form \<and> (0::nat) < length (widgets (form ! 0))
   \<and> field_name (widgets (form ! 0) ! 0) \<notin> fst ` set [(ustr ''CB1'', PBool True)]
   \<and> field_value (widgets (fill plain_env [(ustr ''CB1'', PBool True)] form ! 0) ! 0) = PStr []"
proof -
  have a: "(0::nat) < length form" by (simp add: form_def)
  have b: "(0::nat) < length (widgets (form ! 0))" by (simp add: form_def)
  have c: "field_name (widgets (form ! 0) ! 0) \<notin> fst ` set [(ustr ''CB1'', PBool True)]"
    by (simp add: form_def T1_def ustr_def)
  have d: "field_value (widgets (form ! 0) ! 0) = PStr []" by (simp add: form_def T1_def)
  from a b c d fill_leaves_unmapped_fields [OF a b c, where env = plain_env] show ?thesis by simp
qed




text \<open>
  C9. When the text has a \<open>{\<close> and a \<open>}\<close> but its last \<open>}\<close> stands before its first
  \<open>{\<close>, \<open>extract_json\<close> does not raise: the slice is empty and the empty string is
  returned.
\<close>

theorem extract_json_crossed:
  assumes "123 \<in> set text" and "125 \<in> set text"
    and "py_rfind 125 text < py_find 123 text"
  shows "extract_json text = Inr []"
proof -
  have s: "py_find 123 text \<noteq> - 1" using assms(1) by (simp add: py_find_none)
  have e: "py_rfind 125 text \<noteq> - 1" using assms(2) by (simp add: py_rfind_none)
  have "py_slice text (py_find 123 text) (py_rfind 125 text + 1) = []"
    using assms(3) by (simp add: py_slice_def)
  with s e show ?thesis by (simp add: extract_json_def Let_def)
qed

theorem extract_json_crossed_witness:
  "123 \<in> set (ustr ''} prose {'') \<and> 125 \<in> set (ustr ''} prose {'')
   \<and> py_rfind 125 (ustr ''} prose {'') < py_find 123 (ustr ''} prose {'')
   \<and> extract_json (ustr ''} prose {'') = Inr []"
proof -
  have a: "123 \<in> set (ustr ''} prose {'')" by (simp add: ustr_def)
  have b: "125 \<in> set (ustr ''} prose {'')" by (simp add: ustr_def)
  have c: "py_rfind 125 (ustr ''} prose {'') < py_find 123 (ustr ''} prose {'')"
    by (simp add: ustr_def)
  from a b c extract_json_crossed [OF a b c] show ?thesis by simp
qed




end
